(* ===== verification/Prelude.thy ===== *)
theory Prelude
  imports Complex_Main
begin

text \<open>
  What every component shares: Go's error values and machine integers, the string
  functions of the standard library the code calls, the shape of a Go function that returns
  \<open>(value, error)\<close> and changes a state, a small Hoare logic for such functions, and lemmas on
  tables (lists of rows with a key).
\<close>

section \<open>Collections\<close>

named_theorems hoare_rules "introduction rules for triples"
named_theorems table_simps "rewriting of row lookups"
named_theorems int_simps "machine arithmetic that does not overflow"

section \<open>Errors\<close>

text \<open>
  A Go \<open>error\<close> is one of the sentinels the code compares with, an error the database server
  reports (with its SQLSTATE), an error of the driver or the network, a plain message
  (\<open>errors.New\<close>, or \<open>fmt.Errorf\<close> without \<open>%w\<close>), or a message wrapped around another error
  (\<open>fmt.Errorf\<close> with \<open>%w\<close>).
\<close>

datatype error =
    ErrNoRows
  | ErrAgentNotFound
  | PgError string
  | Driver string
  | Plain string
  | Wrap string error

text \<open>\<open>errors.Is\<close>: the error itself, or one it wraps.\<close>

fun errors_Is :: "error \<Rightarrow> error \<Rightarrow> bool" where
  "errors_Is (Wrap m e) t = (Wrap m e = t \<or> errors_Is e t)"
| "errors_Is e t = (e = t)"

section \<open>Machine integers and time\<close>

text \<open>
  Go's \<open>int\<close> is 64 bits wide here: sums and products wrap around in two's complement. The
  database columns of type \<open>INTEGER\<close> hold 32 bits.
\<close>

definition wrap64 :: "int \<Rightarrow> int" where
  "wrap64 x = signed_take_bit 63 x"

definition add64 :: "int \<Rightarrow> int \<Rightarrow> int" where
  "add64 a b = wrap64 (a + b)"

definition sub64 :: "int \<Rightarrow> int \<Rightarrow> int" where
  "sub64 a b = wrap64 (a - b)"

definition mul64 :: "int \<Rightarrow> int \<Rightarrow> int" where
  "mul64 a b = wrap64 (a * b)"

definition int64 :: "int \<Rightarrow> bool" where
  "int64 x \<longleftrightarrow> - (2 ^ 63) \<le> x \<and> x < 2 ^ 63"

definition int4 :: "int \<Rightarrow> bool" where
  "int4 x \<longleftrightarrow> - (2 ^ 31) \<le> x \<and> x < 2 ^ 31"

lemma wrap64_id [int_simps]: "int64 x \<Longrightarrow> wrap64 x = x"
  unfolding wrap64_def int64_def by (rule signed_take_bit_int_eq_self) auto

lemma int64_wrap64 [simp]: "int64 (wrap64 x)"
  using signed_take_bit_int_less_exp [of 63 x] signed_take_bit_int_greater_eq_minus_exp [of 63 x]
  by (simp add: wrap64_def int64_def)

lemma add64_exact [int_simps]: "int64 (a + b) \<Longrightarrow> add64 a b = a + b"
  by (simp add: add64_def wrap64_id)

lemma sub64_exact [int_simps]: "int64 (a - b) \<Longrightarrow> sub64 a b = a - b"
  by (simp add: sub64_def wrap64_id)

lemma mul64_exact [int_simps]: "int64 (a * b) \<Longrightarrow> mul64 a b = a * b"
  by (simp add: mul64_def wrap64_id)

lemma int4_int64: "int4 x \<Longrightarrow> int64 x"
  by (simp add: int4_def int64_def)

text \<open>
  An instant is a number of microseconds since the Unix epoch, the resolution of the
  \<open>TIMESTAMPTZ\<close> columns. \<open>time.Time\<close>'s zero value is midnight of January 1st, year 1.
\<close>

type_synonym time = int

definition zero_time :: time where
  "zero_time = - 62135596800000000"

definition IsZero :: "time \<Rightarrow> bool" where
  "IsZero t \<longleftrightarrow> t = zero_time"

section \<open>Strings\<close>

text \<open>A Go string, and a \<open>[]byte\<close>, is a sequence of bytes.\<close>

type_synonym bytes = string

definition HasPrefix :: "string \<Rightarrow> string \<Rightarrow> bool" where
  "HasPrefix s p \<longleftrightarrow> take (length p) s = p"

definition HasSuffix :: "string \<Rightarrow> string \<Rightarrow> bool" where
  "HasSuffix s p \<longleftrightarrow> length p \<le> length s \<and> drop (length s - length p) s = p"

definition TrimPrefix :: "string \<Rightarrow> string \<Rightarrow> string" where
  "TrimPrefix s p = (if HasPrefix s p then drop (length p) s else s)"

fun Contains :: "string \<Rightarrow> string \<Rightarrow> bool" where
  "Contains [] p = (p = [])"
| "Contains (c # s) p = (HasPrefix (c # s) p \<or> Contains s p)"

definition ascii :: "char \<Rightarrow> bool" where
  "ascii c \<longleftrightarrow> (of_char c :: nat) < 128"

definition ascii_lower :: "char \<Rightarrow> char" where
  "ascii_lower c =
     (let n = (of_char c :: nat) in if 65 \<le> n \<and> n \<le> 90 then char_of (n + 32) else c)"

text \<open>
  \<open>strings.EqualFold\<close>: bytes are compared up to ASCII case as long as both are ASCII; from the
  first byte that is not, the rest is compared under Unicode case folding, whose tables are
  the argument \<open>uf\<close>.
\<close>

fun EqualFold :: "(string \<Rightarrow> string \<Rightarrow> bool) \<Rightarrow> string \<Rightarrow> string \<Rightarrow> bool" where
  "EqualFold uf (a # s) (b # t) =
     (if \<not> ascii a \<or> \<not> ascii b then uf (a # s) (b # t)
      else if a = b \<or> ascii_lower a = ascii_lower b then EqualFold uf s t
      else False)"
| "EqualFold uf s t = (s = [] \<and> t = [])"

lemma HasPrefix_append [simp]: "HasPrefix (p @ s) p"
  by (simp add: HasPrefix_def)

lemma TrimPrefix_append [simp]: "TrimPrefix (p @ s) p = s"
  by (simp add: TrimPrefix_def)

lemma HasPrefix_iff: "HasPrefix s p \<longleftrightarrow> (\<exists>t. s = p @ t)"
  unfolding HasPrefix_def by (metis append_eq_conv_conj append_take_drop_id)

lemma HasSuffix_iff: "HasSuffix s p \<longleftrightarrow> (\<exists>t. s = t @ p)"
proof
  assume "HasSuffix s p"
  then have "s = take (length s - length p) s @ p"
    by (metis HasSuffix_def append_take_drop_id)
  then show "\<exists>t. s = t @ p" by blast
next
  assume "\<exists>t. s = t @ p"
  then show "HasSuffix s p" by (auto simp: HasSuffix_def)
qed

lemma Contains_iff: "Contains s p \<longleftrightarrow> (\<exists>u v. s = u @ p @ v)"
proof (induction s)
  case Nil
  then show ?case by auto
next
  case (Cons c s)
  have "(\<exists>u v. c # s = u @ p @ v) \<longleftrightarrow>
      (\<exists>v. c # s = p @ v) \<or> (\<exists>u v. s = u @ p @ v)"
    by (metis append_Cons append_Nil list.inject list.exhaust)
  then show ?case by (simp add: Cons.IH HasPrefix_iff)
qed

lemma EqualFold_refl: "list_all ascii s \<Longrightarrow> EqualFold uf s s"
  by (induction s) auto

lemma EqualFold_ascii_lower:
  "list_all ascii s \<Longrightarrow> list_all ascii t \<Longrightarrow>
     EqualFold uf s t \<longleftrightarrow> map ascii_lower s = map ascii_lower t"
  by (induction uf s t rule: EqualFold.induct) auto

text \<open>\<open>%d\<close>: a number in decimal.\<close>

fun decimal_nat :: "nat \<Rightarrow> string" where
  "decimal_nat n = (if n < 10 then [char_of (48 + n)] else decimal_nat (n div 10) @ [char_of (48 + n mod 10)])"

declare decimal_nat.simps [simp del]

definition decimal :: "int \<Rightarrow> string" where
  "decimal i = (if i < 0 then ''-'' @ decimal_nat (nat (- i)) else decimal_nat (nat i))"

section \<open>Functions that may fail\<close>

text \<open>
  A Go function that returns \<open>(T, error)\<close> and changes a state \<open>'s\<close>. \<open>attempt m w k\<close> is
  \<open>v, err := m(); if err != nil { return w(err) }; k(v)\<close>; \<open>attempt_or m k alt\<close> is
  \<open>v, err := m(); if err == nil { k(v) } else { alt }\<close>.
\<close>

type_synonym ('s, 'a) proc = "'s \<Rightarrow> (error + 'a) \<times> 's"

definition ret :: "'a \<Rightarrow> ('s, 'a) proc" where
  "ret v s = (Inr v, s)"

definition fail :: "error \<Rightarrow> ('s, 'a) proc" where
  "fail e s = (Inl e, s)"

definition attempt ::
  "('s, 'a) proc \<Rightarrow> (error \<Rightarrow> error) \<Rightarrow> ('a \<Rightarrow> ('s, 'b) proc) \<Rightarrow> ('s, 'b) proc" where
  "attempt m w k s = (case m s of (Inl e, s') \<Rightarrow> (Inl (w e), s') | (Inr v, s') \<Rightarrow> k v s')"

definition attempt_or ::
  "('s, 'a) proc \<Rightarrow> ('a \<Rightarrow> ('s, 'b) proc) \<Rightarrow> (error \<Rightarrow> ('s, 'b) proc) \<Rightarrow> ('s, 'b) proc" where
  "attempt_or m k alt s = (case m s of (Inl e, s') \<Rightarrow> alt e s' | (Inr v, s') \<Rightarrow> k v s')"

lemma attempt_ret [simp]: "attempt (ret v) w k s = k v s"
  by (simp add: attempt_def ret_def)

lemma attempt_fail [simp]: "attempt (fail e) w k s = (Inl (w e), s)"
  by (simp add: attempt_def fail_def)

lemma attempt_Inr: "m s = (Inr v, s') \<Longrightarrow> attempt m w k s = k v s'"
  by (simp add: attempt_def)

lemma attempt_Inl: "m s = (Inl e, s') \<Longrightarrow> attempt m w k s = (Inl (w e), s')"
  by (simp add: attempt_def)

lemma attempt_Inr_iff:
  "attempt m w k s = (Inr v, s') \<longleftrightarrow> (\<exists>a t. m s = (Inr a, t) \<and> k a t = (Inr v, s'))"
  by (auto simp: attempt_def split: sum.splits prod.splits)

text \<open>
  An operation on a part of the state, given by how the part is read and written.
\<close>

definition lift :: "('w \<Rightarrow> 's) \<Rightarrow> ('s \<Rightarrow> 'w \<Rightarrow> 'w) \<Rightarrow> ('s, 'a) proc \<Rightarrow> ('w, 'a) proc" where
  "lift get put m w = (case m (get w) of (r, s) \<Rightarrow> (r, put s w))"

lemma liftE:
  assumes "lift get put m w = (r, w')"
  obtains s where "m (get w) = (r, s)" and "w' = put s w"
  using assms by (auto simp: lift_def split: prod.splits)

lemma attempt_Inl_iff:
  "attempt m w k s = (Inl e, s') \<longleftrightarrow>
     (\<exists>e'. m s = (Inl e', s') \<and> e = w e') \<or> (\<exists>a t. m s = (Inr a, t) \<and> k a t = (Inl e, s'))"
  by (auto simp: attempt_def split: sum.splits prod.splits)

subsection \<open>Triples\<close>

text \<open>
  \<open>hoare P m Q E\<close>: from a state in \<open>P\<close>, a normal return \<open>v\<close> leaves a state in \<open>Q v\<close>, an
  error one in \<open>E\<close>.
\<close>

definition hoare ::
  "('s \<Rightarrow> bool) \<Rightarrow> ('s, 'a) proc \<Rightarrow> ('a \<Rightarrow> 's \<Rightarrow> bool) \<Rightarrow> ('s \<Rightarrow> bool) \<Rightarrow> bool" where
  "hoare P m Q E \<longleftrightarrow>
     (\<forall>s. P s \<longrightarrow> (case m s of (Inl e, s') \<Rightarrow> E s' | (Inr v, s') \<Rightarrow> Q v s'))"

lemma hoare_ret [hoare_rules]: "(\<And>s. P s \<Longrightarrow> Q v s) \<Longrightarrow> hoare P (ret v) Q E"
  by (simp add: hoare_def ret_def)

lemma hoare_fail [hoare_rules]: "(\<And>s. P s \<Longrightarrow> E s) \<Longrightarrow> hoare P (fail e) Q E"
  by (simp add: hoare_def fail_def)

lemma hoare_attempt [hoare_rules]:
  "hoare P m R E \<Longrightarrow> (\<And>v. hoare (R v) (k v) Q E) \<Longrightarrow> hoare P (attempt m w k) Q E"
  unfolding hoare_def attempt_def by (fastforce split: sum.splits prod.splits)

lemma hoare_attempt_or [hoare_rules]:
  "hoare P m R F \<Longrightarrow> (\<And>v. hoare (R v) (k v) Q E) \<Longrightarrow> (\<And>e. hoare F (alt e) Q E) \<Longrightarrow>
     hoare P (attempt_or m k alt) Q E"
  unfolding hoare_def attempt_or_def by (fastforce split: sum.splits prod.splits)

lemma hoare_if [hoare_rules]:
  "(b \<Longrightarrow> hoare P m Q E) \<Longrightarrow> (\<not> b \<Longrightarrow> hoare P n Q E) \<Longrightarrow> hoare P (if b then m else n) Q E"
  by simp

lemma hoare_conseq:
  "hoare P' m Q' E' \<Longrightarrow> (\<And>s. P s \<Longrightarrow> P' s) \<Longrightarrow> (\<And>v s. Q' v s \<Longrightarrow> Q v s) \<Longrightarrow>
     (\<And>s. E' s \<Longrightarrow> E s) \<Longrightarrow> hoare P m Q E"
  unfolding hoare_def by (fastforce split: sum.splits prod.splits)

lemma hoare_result:
  "hoare P m Q E \<Longrightarrow> P s \<Longrightarrow> m s = (Inr v, s') \<Longrightarrow> Q v s'"
  unfolding hoare_def by fastforce

lemma hoare_error:
  "hoare P m Q E \<Longrightarrow> P s \<Longrightarrow> m s = (Inl e, s') \<Longrightarrow> E s'"
  unfolding hoare_def by fastforce

text \<open>An invariant is kept on every path, errors included.\<close>

abbreviation keeps :: "('s \<Rightarrow> bool) \<Rightarrow> ('s, 'a) proc \<Rightarrow> bool" where
  "keeps J m \<equiv> hoare J m (\<lambda>_. J) J"

lemma keepsD: "keeps J m \<Longrightarrow> J s \<Longrightarrow> J (snd (m s))"
  unfolding hoare_def by (cases "m s"; cases "fst (m s)") auto

lemma keepsI: "(\<And>s r s'. J s \<Longrightarrow> m s = (r, s') \<Longrightarrow> J s') \<Longrightarrow> keeps J m"
  unfolding hoare_def by (fastforce split: prod.split sum.split)

lemma keeps_run: "keeps J m \<Longrightarrow> J s \<Longrightarrow> m s = (r, s') \<Longrightarrow> J s'"
  by (drule keepsD, assumption) simp

lemma keeps_attempt: "keeps J m \<Longrightarrow> (\<And>v. keeps J (k v)) \<Longrightarrow> keeps J (attempt m w k)"
  by (rule hoare_attempt)

lemma keeps_attempt_or:
  "keeps J m \<Longrightarrow> (\<And>v. keeps J (k v)) \<Longrightarrow> (\<And>e. keeps J (alt e)) \<Longrightarrow> keeps J (attempt_or m k alt)"
  by (rule hoare_attempt_or)

lemma keeps_ret: "keeps J (ret v)"
  by (rule hoare_ret)

lemma keeps_fail: "keeps J (fail e)"
  by (rule hoare_fail)

lemma keeps_if: "(b \<Longrightarrow> keeps J m) \<Longrightarrow> (\<not> b \<Longrightarrow> keeps J n) \<Longrightarrow> keeps J (if b then m else n)"
  by simp

lemmas keeps_rules = keeps_attempt keeps_attempt_or keeps_ret keeps_fail keeps_if

section \<open>Tables\<close>

text \<open>
  A table is the list of its rows. \<open>find_row\<close> is a lookup by key, \<open>set_where\<close> an
  \<open>UPDATE ... WHERE\<close>.
\<close>

definition find_row :: "('r \<Rightarrow> 'k) \<Rightarrow> 'k \<Rightarrow> 'r list \<Rightarrow> 'r option" where
  "find_row key k t = find (\<lambda>r. key r = k) t"

definition set_where :: "('r \<Rightarrow> bool) \<Rightarrow> ('r \<Rightarrow> 'r) \<Rightarrow> 'r list \<Rightarrow> 'r list" where
  "set_where p f t = map (\<lambda>r. if p r then f r else r) t"

definition count_where :: "('r \<Rightarrow> bool) \<Rightarrow> 'r list \<Rightarrow> nat" where
  "count_where p t = length (filter p t)"

lemma find_row_Nil [simp]: "find_row key k [] = None"
  by (simp add: find_row_def)

lemma find_row_Cons [simp]:
  "find_row key k (r # t) = (if key r = k then Some r else find_row key k t)"
  by (simp add: find_row_def)

lemma find_row_Some: "find_row key k t = Some r \<Longrightarrow> r \<in> set t \<and> key r = k"
  by (induction t) (auto split: if_splits)

lemma find_row_None_iff [table_simps]: "find_row key k t = None \<longleftrightarrow> k \<notin> key ` set t"
  by (induction t) auto

lemma find_row_append [table_simps]:
  "find_row key k (t @ u) = (case find_row key k t of None \<Rightarrow> find_row key k u | Some r \<Rightarrow> Some r)"
  by (induction t) auto

lemma find_row_in: "distinct (map key t) \<Longrightarrow> r \<in> set t \<Longrightarrow> find_row key (key r) t = Some r"
  by (induction t) (auto simp: rev_image_eqI)

lemma filter_find_row:
  "distinct (map key t) \<Longrightarrow>
     filter (\<lambda>r. key r = k) t = (case find_row key k t of None \<Rightarrow> [] | Some r \<Rightarrow> [r])"
proof (induction t)
  case (Cons r t)
  then show ?case
    by (cases "key r = k") (auto simp: filter_empty_conv rev_image_eqI split: option.splits dest!: find_row_Some)
qed simp

lemma set_where_Nil [simp]: "set_where p f [] = []"
  by (simp add: set_where_def)

lemma set_where_Cons [simp]: "set_where p f (r # t) = (if p r then f r else r) # set_where p f t"
  by (simp add: set_where_def)

lemma set_set_where: "set (set_where p f t) = f ` {r \<in> set t. p r} \<union> {r \<in> set t. \<not> p r}"
  by (induction t) auto

lemma map_key_set_where [table_simps]:
  "(\<And>r. key (f r) = key r) \<Longrightarrow> map key (set_where p f t) = map key t"
  by (induction t) auto

lemma keys_set_where [table_simps]:
  "(\<And>r. key (f r) = key r) \<Longrightarrow> key ` set (set_where p f t) = key ` set t"
  by (metis list.set_map map_key_set_where)

lemma find_row_set_where_same [table_simps]:
  "(\<And>r. key (f r) = key r) \<Longrightarrow>
     find_row key k (set_where (\<lambda>r. key r = k) f t) = map_option f (find_row key k t)"
  by (induction t) auto

lemma find_row_set_where [table_simps]:
  "(\<And>r. key (f r) = key r) \<Longrightarrow>
     find_row key k (set_where p f t) =
       map_option (\<lambda>r. if p r then f r else r) (find_row key k t)"
  by (induction t) auto

lemma set_where_none: "(\<And>r. r \<in> set t \<Longrightarrow> \<not> p r) \<Longrightarrow> set_where p f t = t"
  by (induction t) auto

lemma count_where_Nil [simp]: "count_where p [] = 0"
  by (simp add: count_where_def)

lemma count_where_Cons [simp]:
  "count_where p (r # t) = (if p r then Suc (count_where p t) else count_where p t)"
  by (simp add: count_where_def)

lemma count_where_zero_iff [table_simps]: "count_where p t = 0 \<longleftrightarrow> (\<forall>r \<in> set t. \<not> p r)"
  by (induction t) auto

lemma count_where_set_where:
  "(\<And>r. q (f r) = q r) \<Longrightarrow> count_where q (set_where p f t) = count_where q t"
  by (induction t) auto

end
