(* ===== verification/Models.thy ===== *)
theory Models
  imports Prelude
begin

text \<open>
  The data of the service: the structs of \<open>internal/trust/models.go\<close>,
  \<open>internal/memory/types.go\<close>, \<open>internal/policy/types.go\<close> and the audit event of
  \<open>internal/audit/logger.go\<close>. A struct that is stored in a table is also the row of that
  table. Fields keep the source's names behind a short prefix, since several structs share
  \<open>ID\<close>, \<open>AgentDID\<close> and \<open>CreatedAt\<close>. A UUID is its canonical text.
\<close>

type_synonym uuid = string

definition uuid_Nil :: uuid where
  "uuid_Nil = ''00000000-0000-0000-0000-000000000000''"

section \<open>Trust layer\<close>

record Agent =
  ag_DID :: string
  ag_PublicKey :: bytes
  ag_ReputationScore :: int
  ag_CreatedAt :: time
  ag_LastActiveAt :: time

record ReputationEvent =
  re_ID :: uuid
  re_AgentDID :: string
  re_EventType :: string
  re_ScoreChange :: int
  re_CreatedAt :: time

record Attestation =
  at_ID :: string
  at_MemoryID :: string
  at_AgentDID :: string
  at_Signature :: bytes
  at_CreatedAt :: time

record Verification =
  vf_ID :: string
  vf_TargetDID :: string
  vf_VerifierDID :: string
  vf_Status :: string
  vf_CreatedAt :: time

section \<open>Memory engine\<close>

text \<open>\<open>MemoryType\<close> is a string type with six named values; other strings can occur.\<close>

type_synonym MemoryType = string

definition Working :: MemoryType where "Working = ''working''"
definition Episodic :: MemoryType where "Episodic = ''episodic''"
definition Semantic :: MemoryType where "Semantic = ''semantic''"
definition Procedural :: MemoryType where "Procedural = ''procedural''"
definition Declarative :: MemoryType where "Declarative = ''declarative''"
definition Feedback :: MemoryType where "Feedback = ''feedback''"

lemmas memory_type_defs =
  Working_def Episodic_def Semantic_def Procedural_def Declarative_def Feedback_def

definition Validate :: "MemoryType \<Rightarrow> error + unit" where
  "Validate mt =
     (if mt \<in> {Working, Episodic, Semantic, Procedural, Declarative, Feedback} then Inr ()
      else Inl (Plain (''invalid memory type: '' @ mt)))"

definition IsPersistent :: "MemoryType \<Rightarrow> bool" where
  "IsPersistent mt \<longleftrightarrow> mt \<noteq> Working"

text \<open>A \<open>time.Duration\<close> in seconds; zero stands for "persistent".\<close>

definition DefaultTTL :: "MemoryType \<Rightarrow> int" where
  "DefaultTTL mt = (if mt = Working then 24 * 3600 else 0)"

record PIIField =
  pii_Type :: string
  pii_Start :: int
  pii_End :: int

record AttestationRef =
  ar_AttestationID :: uuid
  ar_AgentDID :: string
  ar_Claim :: string
  ar_Timestamp :: time

text \<open>Finite \<open>float64\<close> and \<open>float32\<close> values are rationals.\<close>

record Metadata =
  md_Source :: string
  md_Confidence :: rat
  md_Tags :: "string list"
  md_PII :: "PIIField list"
  md_Attestations :: "AttestationRef list"

record Memory =
  m_ID :: uuid
  m_Type :: MemoryType
  m_Namespace :: string
  m_AgentDID :: string
  m_Content :: bytes
  m_Embedding :: "rat list"
  m_Metadata :: Metadata
  m_ValidFrom :: "time option"
  m_ValidUntil :: "time option"
  m_DistilledFrom :: "uuid option"
  m_CreatedAt :: time
  m_UpdatedAt :: time
  m_DeletedAt :: "time option"

record StoreRequest =
  sr_Type :: MemoryType
  sr_Namespace :: string
  sr_AgentDID :: string
  sr_Content :: bytes
  sr_Metadata :: Metadata
  sr_ValidFrom :: "time option"
  sr_ValidUntil :: "time option"

record FilterSet =
  fs_Tags :: "string list"
  fs_ConfidenceMin :: rat
  fs_ConfidenceMax :: rat
  fs_CreatedAfter :: "time option"
  fs_CreatedBefore :: "time option"
  fs_HasAttestation :: bool

record SearchQuery =
  sq_Query :: string
  sq_Types :: "MemoryType list"
  sq_Namespaces :: "string list"
  sq_AgentDID :: string
  sq_Limit :: int
  sq_Offset :: int
  sq_Filters :: FilterSet

record SearchResult =
  res_Results :: "Memory list"
  res_Total :: int
  res_Limit :: int
  res_Offset :: int

record ListOpts =
  lo_Types :: "MemoryType list"
  lo_Limit :: int
  lo_Offset :: int

text \<open>The zero values of \<open>Metadata\<close> and \<open>FilterSet\<close>, what an absent struct decodes to.\<close>

definition no_metadata :: Metadata where
  "no_metadata = \<lparr>md_Source = [], md_Confidence = 0, md_Tags = [], md_PII = [], md_Attestations = []\<rparr>"

definition no_filters :: FilterSet where
  "no_filters = \<lparr>fs_Tags = [], fs_ConfidenceMin = 0, fs_ConfidenceMax = 0,
     fs_CreatedAfter = None, fs_CreatedBefore = None, fs_HasAttestation = False\<rparr>"

section \<open>Policy engine\<close>

record MemoryRule =
  mr_Action :: string
  mr_TargetTypes :: "string list"
  mr_Namespaces :: "string list"
  mr_Effect :: string

record DelegationRule =
  dr_MaxDepth :: int
  dr_MinReputation :: int
  dr_AllowedAgents :: "string list"
  dr_ExcludedAgents :: "string list"
  dr_Effect :: string

record PIIRule =
  pr_TypesToRedact :: "string list"
  pr_Action :: string

record AuditRule =
  au_ActionsToLog :: "string list"
  au_Level :: string

record Content =
  c_MemoryRules :: "MemoryRule list"
  c_DelegationRules :: "DelegationRule list"
  c_PIIRules :: "PIIRule list"
  c_AuditRules :: "AuditRule list"

record Policy =
  p_ID :: string
  p_AgentDID :: string
  p_Version :: string
  p_Content :: Content
  p_CreatedAt :: time
  p_UpdatedAt :: time

section \<open>Audit\<close>

text \<open>
  The metadata the code writes is a map from names to integers (\<open>duration_ms\<close> and
  \<open>status\<close>); \<open>None\<close> is the nil map.
\<close>

record Event =
  ev_ID :: string
  ev_Timestamp :: time
  ev_AgentDID :: string
  ev_Action :: string
  ev_Resource :: string
  ev_Allowed :: bool
  ev_PolicyID :: string
  ev_Reason :: string
  ev_Metadata :: "(string \<times> int) list option"

section \<open>What the type names decide\<close>

lemma Validate_cases:
  "Validate mt = Inr () \<longleftrightarrow> mt \<in> {Working, Episodic, Semantic, Procedural, Declarative, Feedback}"
  by (simp add: Validate_def)

lemma Working_not_persistent [simp]: "\<not> IsPersistent Working"
  by (simp add: IsPersistent_def)

lemma DefaultTTL_persistent: "DefaultTTL mt = 0 \<longleftrightarrow> IsPersistent mt"
  by (simp add: DefaultTTL_def IsPersistent_def)

end
