(* ===== verification/Database.thy ===== *)
theory Database
  imports Models
begin

text \<open>
  The PostgreSQL database the service runs on: its tables (\<open>migrations/*.up.sql\<close>), how a
  statement of the code runs against them, and transactions. What a statement does to the
  tables is translated from its SQL text by the component that sends it. Whether the server
  and the network carry it out is not the program's: every call to the driver takes the next
  entry of an arbitrary list of outcomes, so that every error return of the code can happen.
\<close>

section \<open>Tables\<close>

record db =
  t_agents :: "Agent list"
  t_reputation_events :: "ReputationEvent list"
  t_attestations :: "Attestation list"
  t_verifications :: "Verification list"
  t_memories :: "Memory list"
  t_policies :: "Policy list"
  t_audit_log :: "Event list"

definition empty_db :: db where
  "empty_db = \<lparr>t_agents = [], t_reputation_events = [], t_attestations = [],
     t_verifications = [], t_memories = [], t_policies = [], t_audit_log = []\<rparr>"

abbreviation find_agent :: "string \<Rightarrow> db \<Rightarrow> Agent option" where
  "find_agent did d \<equiv> find_row ag_DID did (t_agents d)"

definition has_agent :: "string \<Rightarrow> db \<Rightarrow> bool" where
  "has_agent did d \<longleftrightarrow> did \<in> ag_DID ` set (t_agents d)"

lemma has_agent_find: "has_agent did d \<longleftrightarrow> (\<exists>a. find_agent did d = Some a)"
  by (metis find_row_None_iff has_agent_def not_None_eq)

lemma has_agent_not_find: "\<not> has_agent did d \<longleftrightarrow> find_agent did d = None"
  by (simp add: has_agent_def find_row_None_iff)

lemma has_agent_frame [simp]:
  "has_agent x (d\<lparr>t_reputation_events := a\<rparr>) = has_agent x d"
  "has_agent x (d\<lparr>t_attestations := b\<rparr>) = has_agent x d"
  "has_agent x (d\<lparr>t_verifications := e\<rparr>) = has_agent x d"
  "has_agent x (d\<lparr>t_memories := f\<rparr>) = has_agent x d"
  "has_agent x (d\<lparr>t_policies := g\<rparr>) = has_agent x d"
  "has_agent x (d\<lparr>t_audit_log := h\<rparr>) = has_agent x d"
  by (simp_all add: has_agent_def)

lemma has_agent_cong: "ag_DID ` set (t_agents d') = ag_DID ` set (t_agents d) \<Longrightarrow> has_agent x d' = has_agent x d"
  by (simp add: has_agent_def)

text \<open>The row an optional identifier refers to exists.\<close>

definition has_memory :: "uuid option \<Rightarrow> db \<Rightarrow> bool" where
  "has_memory i d \<longleftrightarrow> (case i of None \<Rightarrow> True | Some u \<Rightarrow> u \<in> m_ID ` set (t_memories d))"

lemma has_memory_cong: "m_ID ` set (t_memories d') = m_ID ` set (t_memories d) \<Longrightarrow> has_memory i d' = has_memory i d"
  by (simp add: has_memory_def split: option.splits)

lemma has_memory_frame [simp]:
  "has_memory x (d\<lparr>t_agents := a\<rparr>) = has_memory x d"
  "has_memory x (d\<lparr>t_reputation_events := b\<rparr>) = has_memory x d"
  "has_memory x (d\<lparr>t_attestations := c\<rparr>) = has_memory x d"
  "has_memory x (d\<lparr>t_verifications := e\<rparr>) = has_memory x d"
  "has_memory x (d\<lparr>t_policies := g\<rparr>) = has_memory x d"
  "has_memory x (d\<lparr>t_audit_log := h\<rparr>) = has_memory x d"
  by (simp_all add: has_memory_def split: option.splits)

subsection \<open>The constraints of the migrations\<close>

text \<open>
  Primary keys, and the foreign keys into \<open>agents\<close>. (\<open>policies.agent_did\<close> may also be
  \<open>NULL\<close>, which the code never writes.)
\<close>

definition keys_ok :: "db \<Rightarrow> bool" where
  "keys_ok d \<longleftrightarrow>
     distinct (map ag_DID (t_agents d)) \<and>
     distinct (map re_ID (t_reputation_events d)) \<and>
     distinct (map at_ID (t_attestations d)) \<and>
     distinct (map vf_ID (t_verifications d)) \<and>
     distinct (map m_ID (t_memories d)) \<and>
     distinct (map p_ID (t_policies d))"

definition refs_ok :: "db \<Rightarrow> bool" where
  "refs_ok d \<longleftrightarrow>
     (\<forall>e \<in> set (t_reputation_events d). has_agent (re_AgentDID e) d) \<and>
     (\<forall>a \<in> set (t_attestations d). has_agent (at_AgentDID a) d) \<and>
     (\<forall>v \<in> set (t_verifications d). has_agent (vf_TargetDID v) d \<and> has_agent (vf_VerifierDID v) d) \<and>
     (\<forall>m \<in> set (t_memories d). has_agent (m_AgentDID m) d \<and>
        has_memory (m_DistilledFrom m) d) \<and>
     (\<forall>p \<in> set (t_policies d). has_agent (p_AgentDID p) d)"

definition columns_ok :: "db \<Rightarrow> bool" where
  "columns_ok d \<longleftrightarrow>
     (\<forall>a \<in> set (t_agents d). int4 (ag_ReputationScore a)) \<and>
     (\<forall>e \<in> set (t_reputation_events d). int4 (re_ScoreChange e)) \<and>
     (\<forall>m \<in> set (t_memories d). m_Type m \<in> {Episodic, Semantic, Procedural, Declarative, Feedback})"

definition db_ok :: "db \<Rightarrow> bool" where
  "db_ok d \<longleftrightarrow> keys_ok d \<and> refs_ok d \<and> columns_ok d"

lemmas db_ok_defs = db_ok_def keys_ok_def refs_ok_def columns_ok_def

text \<open>What no constraint of the schema says, but the code maintains: scores stay in 0..1000.\<close>

definition scores_ok :: "db \<Rightarrow> bool" where
  "scores_ok d \<longleftrightarrow> (\<forall>a \<in> set (t_agents d). 0 \<le> ag_ReputationScore a \<and> ag_ReputationScore a \<le> 1000)"

lemma scores_okD:
  "scores_ok d \<Longrightarrow> find_agent did d = Some a \<Longrightarrow> 0 \<le> ag_ReputationScore a \<and> ag_ReputationScore a \<le> 1000"
  by (auto simp: scores_ok_def dest: find_row_Some)

lemma empty_db_ok: "db_ok empty_db"
  by (simp add: db_ok_defs empty_db_def)

section \<open>Statements\<close>

text \<open>
  A call is served, refused (nothing happens and the driver returns an error), or its reply
  is lost (the server carries it out and the driver still returns an error). No entry left
  means served.
\<close>

datatype outcome = Served | Refused string | Lost string

record conn =
  c_db :: db
  c_outcomes :: "outcome list"
  c_aborted :: bool

definition next_outcome :: "conn \<Rightarrow> outcome \<times> conn" where
  "next_outcome c =
     (case c_outcomes c of [] \<Rightarrow> (Served, c) | x # xs \<Rightarrow> (x, c\<lparr>c_outcomes := xs\<rparr>))"

definition calm :: "conn \<Rightarrow> bool" where
  "calm c \<longleftrightarrow> c_outcomes c = [] \<and> \<not> c_aborted c"

type_synonym 'a sql = "db \<Rightarrow> error + 'a \<times> db"

text \<open>
  \<open>db_stmt\<close> is a call on \<open>*sql.DB\<close>: a transaction of its own. \<open>tx_stmt\<close> is one on
  \<open>*sql.Tx\<close>: after any error the server aborts the transaction, refuses the statements that
  follow (SQLSTATE 25P02) and ends it with a rollback.
\<close>

definition db_stmt :: "'a sql \<Rightarrow> (conn, 'a) proc" where
  "db_stmt f c =
     (case next_outcome c of
        (Served, c') \<Rightarrow>
          (case f (c_db c') of Inl e \<Rightarrow> (Inl e, c') | Inr (v, d) \<Rightarrow> (Inr v, c'\<lparr>c_db := d\<rparr>))
      | (Refused e, c') \<Rightarrow> (Inl (Driver e), c')
      | (Lost e, c') \<Rightarrow>
          (Inl (Driver e), (case f (c_db c') of Inl _ \<Rightarrow> c' | Inr (v, d) \<Rightarrow> c'\<lparr>c_db := d\<rparr>)))"

definition tx_stmt :: "'a sql \<Rightarrow> (conn, 'a) proc" where
  "tx_stmt f c =
     (case next_outcome c of
        (Served, c') \<Rightarrow>
          (if c_aborted c' then (Inl (PgError ''25P02''), c')
           else (case f (c_db c') of
                   Inl e \<Rightarrow> (Inl e, c'\<lparr>c_aborted := True\<rparr>)
                 | Inr (v, d) \<Rightarrow> (Inr v, c'\<lparr>c_db := d\<rparr>)))
      | (Refused e, c') \<Rightarrow> (Inl (Driver e), c'\<lparr>c_aborted := True\<rparr>)
      | (Lost e, c') \<Rightarrow> (Inl (Driver e), c'\<lparr>c_aborted := True\<rparr>))"

text \<open>
  \<open>tx.Commit()\<close>, where \<open>d0\<close> is the database the transaction began with: a refused commit and
  the commit of an aborted transaction roll back; a commit whose reply is lost has happened.
\<close>

definition commit :: "db \<Rightarrow> 'a \<Rightarrow> (conn, 'a) proc" where
  "commit d0 v c =
     (case next_outcome c of
        (Served, c') \<Rightarrow>
          (if c_aborted c'
           then (Inl (Plain ''pq: Could not complete operation in a failed transaction''),
                 c'\<lparr>c_db := d0, c_aborted := False\<rparr>)
           else (Inr v, c'))
      | (Refused e, c') \<Rightarrow> (Inl (Driver e), c'\<lparr>c_db := d0, c_aborted := False\<rparr>)
      | (Lost e, c') \<Rightarrow>
          (Inl (Driver e),
           if c_aborted c' then c'\<lparr>c_db := d0, c_aborted := False\<rparr> else c'))"

text \<open>
  The idiom \<open>tx, err := db.BeginTx(...); defer tx.Rollback(); ...; return tx.Commit()\<close>: an
  early return of the body rolls back, its last value is returned after the commit.
\<close>

definition with_tx :: "(error \<Rightarrow> error) \<Rightarrow> (conn, 'a) proc \<Rightarrow> (conn, 'a) proc" where
  "with_tx w body c =
     (case next_outcome c of
        (Served, c1) \<Rightarrow>
          (case body (c1\<lparr>c_aborted := False\<rparr>) of
             (Inl e, c2) \<Rightarrow> (Inl e, c2\<lparr>c_db := c_db c1, c_aborted := False\<rparr>)
           | (Inr v, c2) \<Rightarrow> commit (c_db c1) v c2)
      | (Refused e, c1) \<Rightarrow> (Inl (w (Driver e)), c1)
      | (Lost e, c1) \<Rightarrow> (Inl (w (Driver e)), c1))"

text \<open>
  \<open>QueryContext\<close> with the scan loop, and \<open>QueryRowContext(...).Scan\<close>, whose empty result is
  \<open>sql.ErrNoRows\<close> and no error of the server.
\<close>

definition select :: "(db \<Rightarrow> 'a) \<Rightarrow> 'a sql" where
  "select q d = Inr (q d, d)"

definition scan_row :: "'a option \<Rightarrow> ('s, 'a) proc" where
  "scan_row r = (case r of None \<Rightarrow> fail ErrNoRows | Some v \<Rightarrow> ret v)"

definition db_row :: "(db \<Rightarrow> 'a option) \<Rightarrow> (conn, 'a) proc" where
  "db_row q = attempt (db_stmt (select q)) id scan_row"

definition tx_row :: "(db \<Rightarrow> 'a option) \<Rightarrow> (conn, 'a) proc" where
  "tx_row q = attempt (tx_stmt (select q)) id scan_row"

section \<open>Calm connections\<close>

text \<open>With every call served, statements are the SQL functions they carry.\<close>

lemma next_outcome_calm [simp]: "calm c \<Longrightarrow> next_outcome c = (Served, c)"
  by (simp add: calm_def next_outcome_def)

lemma calm_update [simp]: "calm (c\<lparr>c_db := d\<rparr>) = calm c"
  by (simp add: calm_def)

lemma calm_not_aborted [simp]: "calm c \<Longrightarrow> c_aborted c = False"
  by (simp add: calm_def)

lemma calm_reset [simp]: "calm c \<Longrightarrow> c\<lparr>c_aborted := False\<rparr> = c"
  by (simp add: calm_def)

lemma db_stmt_calm [simp]:
  "calm c \<Longrightarrow> db_stmt f c =
     (case f (c_db c) of Inl e \<Rightarrow> (Inl e, c) | Inr (v, d) \<Rightarrow> (Inr v, c\<lparr>c_db := d\<rparr>))"
  by (simp add: db_stmt_def)

lemma tx_stmt_calm [simp]:
  "calm c \<Longrightarrow> tx_stmt f c =
     (case f (c_db c) of
        Inl e \<Rightarrow> (Inl e, c\<lparr>c_aborted := True\<rparr>)
      | Inr (v, d) \<Rightarrow> (Inr v, c\<lparr>c_db := d\<rparr>))"
  by (simp add: tx_stmt_def)

lemma db_row_calm [simp]:
  "calm c \<Longrightarrow> db_row q c = (case q (c_db c) of None \<Rightarrow> (Inl ErrNoRows, c) | Some v \<Rightarrow> (Inr v, c))"
  by (simp add: db_row_def attempt_def select_def scan_row_def fail_def ret_def split: option.splits)

lemma tx_row_calm [simp]:
  "calm c \<Longrightarrow> tx_row q c = (case q (c_db c) of None \<Rightarrow> (Inl ErrNoRows, c) | Some v \<Rightarrow> (Inr v, c))"
  by (simp add: tx_row_def attempt_def select_def scan_row_def fail_def ret_def split: option.splits)

lemma with_tx_calm [simp]:
  "calm c \<Longrightarrow> body c = (Inr v, c\<lparr>c_db := d\<rparr>) \<Longrightarrow> with_tx w body c = (Inr v, c\<lparr>c_db := d\<rparr>)"
  by (simp add: with_tx_def commit_def)

lemma with_tx_calm_error:
  "calm c \<Longrightarrow> body c = (Inl e, c') \<Longrightarrow> c_outcomes c' = [] \<Longrightarrow> with_tx w body c = (Inl e, c)"
  by (cases c, cases c') (simp add: with_tx_def calm_def)

section \<open>Triples for statements\<close>

text \<open>
  Assertions about the database only. \<open>db_hoare P m Q E\<close> is \<open>hoare\<close> read through \<open>c_db\<close>.
\<close>

definition db_hoare ::
  "(db \<Rightarrow> bool) \<Rightarrow> (conn, 'a) proc \<Rightarrow> ('a \<Rightarrow> db \<Rightarrow> bool) \<Rightarrow> (db \<Rightarrow> bool) \<Rightarrow> bool" where
  "db_hoare P m Q E \<longleftrightarrow> hoare (\<lambda>c. P (c_db c)) m (\<lambda>v c. Q v (c_db c)) (\<lambda>c. E (c_db c))"

abbreviation db_keeps :: "(db \<Rightarrow> bool) \<Rightarrow> (conn, 'a) proc \<Rightarrow> bool" where
  "db_keeps J m \<equiv> db_hoare J m (\<lambda>_. J) J"

lemma db_hoare_ret [hoare_rules]: "(\<And>d. P d \<Longrightarrow> Q v d) \<Longrightarrow> db_hoare P (ret v) Q E"
  unfolding db_hoare_def by (rule hoare_ret)

lemma db_hoare_fail [hoare_rules]: "(\<And>d. P d \<Longrightarrow> E d) \<Longrightarrow> db_hoare P (fail e) Q E"
  unfolding db_hoare_def by (rule hoare_fail)

lemma db_hoare_attempt [hoare_rules]:
  "db_hoare P m R E \<Longrightarrow> (\<And>v. db_hoare (R v) (k v) Q E) \<Longrightarrow> db_hoare P (attempt m w k) Q E"
  unfolding db_hoare_def by (rule hoare_attempt)

lemma db_hoare_attempt_or [hoare_rules]:
  "db_hoare P m R F \<Longrightarrow> (\<And>v. db_hoare (R v) (k v) Q E) \<Longrightarrow> (\<And>e. db_hoare F (alt e) Q E) \<Longrightarrow>
     db_hoare P (attempt_or m k alt) Q E"
  unfolding db_hoare_def by (rule hoare_attempt_or)

lemma db_hoare_if [hoare_rules]:
  "(b \<Longrightarrow> db_hoare P m Q E) \<Longrightarrow> (\<not> b \<Longrightarrow> db_hoare P n Q E) \<Longrightarrow>
     db_hoare P (if b then m else n) Q E"
  by simp

lemma db_hoare_conseq:
  "db_hoare P' m Q' E' \<Longrightarrow> (\<And>d. P d \<Longrightarrow> P' d) \<Longrightarrow> (\<And>v d. Q' v d \<Longrightarrow> Q v d) \<Longrightarrow>
     (\<And>d. E' d \<Longrightarrow> E d) \<Longrightarrow> db_hoare P m Q E"
  unfolding db_hoare_def by (erule hoare_conseq)

lemma next_outcome_frame:
  "next_outcome c = (x, c') \<Longrightarrow> c_db c' = c_db c \<and> c_aborted c' = c_aborted c"
  by (auto simp: next_outcome_def split: list.splits)

lemma db_stmt_cases:
  "db_stmt f c = (r, c') \<Longrightarrow>
     ((\<exists>e. r = Inl e) \<and> c_db c' = c_db c) \<or>
     (\<exists>v. f (c_db c) = Inr (v, c_db c') \<and> (r = Inr v \<or> (\<exists>e. r = Inl e)))"
  by (auto simp: db_stmt_def dest!: next_outcome_frame
           split: prod.splits outcome.splits sum.splits)

lemma tx_stmt_cases:
  "tx_stmt f c = (r, c') \<Longrightarrow>
     ((\<exists>e. r = Inl e) \<and> c_db c' = c_db c) \<or>
     (\<exists>v. f (c_db c) = Inr (v, c_db c') \<and> r = Inr v)"
  by (auto simp: tx_stmt_def dest!: next_outcome_frame
           split: prod.splits outcome.splits sum.splits if_splits)

lemma db_hoare_stmt:
  assumes "\<And>d. P d \<Longrightarrow> E d"
    and "\<And>d v d'. P d \<Longrightarrow> f d = Inr (v, d') \<Longrightarrow> Q v d' \<and> E d'"
  shows "db_hoare P (db_stmt f) Q E"
  unfolding db_hoare_def hoare_def
proof (intro allI impI)
  fix c :: conn
  assume "P (c_db c)"
  then show "case db_stmt f c of
      (Inl e, s') \<Rightarrow> E (c_db s') | (Inr v, s') \<Rightarrow> Q v (c_db s')"
    using db_stmt_cases [of f c "fst (db_stmt f c)" "snd (db_stmt f c)"] assms
    by (auto split: prod.splits sum.splits)
qed

lemma db_hoare_tx_stmt:
  assumes "\<And>d. P d \<Longrightarrow> E d"
    and "\<And>d v d'. P d \<Longrightarrow> f d = Inr (v, d') \<Longrightarrow> Q v d'"
  shows "db_hoare P (tx_stmt f) Q E"
  unfolding db_hoare_def hoare_def
proof (intro allI impI)
  fix c :: conn
  assume "P (c_db c)"
  then show "case tx_stmt f c of
      (Inl e, s') \<Rightarrow> E (c_db s') | (Inr v, s') \<Rightarrow> Q v (c_db s')"
    using tx_stmt_cases [of f c "fst (tx_stmt f c)" "snd (tx_stmt f c)"] assms
    by (auto split: prod.splits sum.splits)
qed

lemma db_hoare_db_row:
  "(\<And>d. P d \<Longrightarrow> E d) \<Longrightarrow> (\<And>d v. P d \<Longrightarrow> q d = Some v \<Longrightarrow> Q v d) \<Longrightarrow> db_hoare P (db_row q) Q E"
  unfolding db_row_def
  by (rule db_hoare_attempt [where R = "\<lambda>r d. P d \<and> r = q d"])
     (auto simp: scan_row_def select_def split: option.splits
           intro!: db_hoare_stmt db_hoare_ret db_hoare_fail)

lemma db_hoare_tx_row:
  "(\<And>d. P d \<Longrightarrow> E d) \<Longrightarrow> (\<And>d v. P d \<Longrightarrow> q d = Some v \<Longrightarrow> Q v d) \<Longrightarrow> db_hoare P (tx_row q) Q E"
  unfolding tx_row_def
  by (rule db_hoare_attempt [where R = "\<lambda>r d. P d \<and> r = q d"])
     (auto simp: scan_row_def select_def split: option.splits
           intro!: db_hoare_tx_stmt db_hoare_ret db_hoare_fail)

text \<open>
  A transaction that fails leaves the database it began with, or, when only the reply of the
  commit is lost, the one its body reached.
\<close>

lemma commit_cases:
  "commit d0 v c = (r, c') \<Longrightarrow>
     (\<not> c_aborted c \<and> c_db c' = c_db c \<and> (r = Inr v \<or> (\<exists>e. r = Inl e))) \<or>
     ((\<exists>e. r = Inl e) \<and> c_db c' = d0)"
  by (auto simp: commit_def dest: next_outcome_frame
           split: prod.splits outcome.splits if_splits)

lemma with_tx_cases:
  assumes "with_tx w body c = (r, c')"
  obtains (kept) e where "r = Inl e" and "c_db c' = c_db c"
  | (reached) v c1 c2 where "c_db c1 = c_db c" and "\<not> c_aborted c1" and "body c1 = (Inr v, c2)"
      and "\<not> c_aborted c2" and "c_db c' = c_db c2" and "r = Inr v \<or> (\<exists>e. r = Inl e)"
proof -
  obtain x c1 where n: "next_outcome c = (x, c1)" by fastforce
  obtain q c2 where b: "body (c1\<lparr>c_aborted := False\<rparr>) = (q, c2)" by fastforce
  have db: "c_db c1 = c_db c" using next_outcome_frame [OF n] by simp
  consider (began) "x = Served" | (not_begun) "x \<noteq> Served" by blast
  then show thesis
  proof cases
    case not_begun
    then show thesis
      using assms n db kept by (cases x) (auto simp: with_tx_def)
  next
    case began
    show thesis
    proof (cases q)
      case (Inl e)
      then show thesis using assms n db b began kept [of e] by (auto simp: with_tx_def)
    next
      case (Inr v)
      then have "commit (c_db c1) v c2 = (r, c')"
        using assms n b began by (simp add: with_tx_def)
      from commit_cases [OF this] show thesis
        using reached [of "c1\<lparr>c_aborted := False\<rparr>" v c2] kept b db Inr by auto
    qed
  qed
qed

lemma db_hoare_with_tx:
  assumes body: "db_hoare P body Q (\<lambda>_. True)"
    and PE: "\<And>d. P d \<Longrightarrow> E d" and QE: "\<And>v d. Q v d \<Longrightarrow> E d"
  shows "db_hoare P (with_tx w body) Q E"
  unfolding db_hoare_def hoare_def
proof (intro allI impI)
  fix c :: conn
  assume P: "P (c_db c)"
  obtain r c' where r: "with_tx w body c = (r, c')" by fastforce
  have "case r of Inl e \<Rightarrow> E (c_db c') | Inr v \<Rightarrow> Q v (c_db c')"
    using r
  proof (cases rule: with_tx_cases)
    case kept
    then show ?thesis using PE P by simp
  next
    case (reached v c1 c2)
    then have "Q v (c_db c')"
      using hoare_result [OF body [unfolded db_hoare_def], of c1 v c2] P by simp
    then show ?thesis using reached QE by auto
  qed
  then show "case with_tx w body c of
      (Inl e, s') \<Rightarrow> E (c_db s') | (Inr v, s') \<Rightarrow> Q v (c_db s')"
    by (simp add: r split: sum.splits)
qed

lemma db_keeps_with_tx [hoare_rules]: "db_keeps J body \<Longrightarrow> db_keeps J (with_tx w body)"
  by (rule db_hoare_with_tx) (auto intro: db_hoare_conseq)

lemma db_keepsD: "db_keeps J m \<Longrightarrow> J (c_db c) \<Longrightarrow> J (c_db (snd (m c)))"
  unfolding db_hoare_def by (drule keepsD) auto

section \<open>Atomic operations\<close>

text \<open>
  \<open>atomic m spec\<close>: whatever the calls' outcomes, \<open>m\<close> either leaves the database as it was or
  takes it to the state of \<open>spec\<close>; a normal return means the latter, with \<open>spec\<close>'s value.
\<close>

definition atomic :: "(conn, 'a) proc \<Rightarrow> (db \<Rightarrow> ('a \<times> db) option) \<Rightarrow> bool" where
  "atomic m spec \<longleftrightarrow>
     (\<forall>c r c'. m c = (r, c') \<longrightarrow>
        (case r of
           Inr v \<Rightarrow> spec (c_db c) = Some (v, c_db c')
         | Inl e \<Rightarrow> c_db c' = c_db c \<or> (\<exists>v. spec (c_db c) = Some (v, c_db c'))))"

lemma tx_stmt_InrD: "tx_stmt f c = (Inr v, c') \<Longrightarrow> f (c_db c) = Inr (v, c_db c')"
  using tx_stmt_cases [of f c "Inr v" c'] by auto

lemma db_stmt_InrD: "db_stmt f c = (Inr v, c') \<Longrightarrow> f (c_db c) = Inr (v, c_db c')"
  using db_stmt_cases [of f c "Inr v" c'] by auto

lemma scan_row_Inr: "scan_row r s = (Inr v, s') \<longleftrightarrow> r = Some v \<and> s' = s"
  by (auto simp: scan_row_def ret_def fail_def split: option.splits)

lemma scan_row_Inl: "scan_row r s = (Inl e, s') \<longleftrightarrow> r = None \<and> e = ErrNoRows \<and> s' = s"
  by (auto simp: scan_row_def ret_def fail_def split: option.splits)

lemma tx_row_InrD:
  assumes "tx_row q c = (Inr v, c')"
  shows "q (c_db c) = Some v \<and> c_db c' = c_db c"
proof -
  obtain r t where "tx_stmt (select q) c = (Inr r, t)" and "scan_row r t = (Inr v, c')"
    using assms unfolding tx_row_def attempt_Inr_iff by blast
  then show ?thesis using tx_stmt_InrD [of "select q" c r t] by (simp add: scan_row_Inr select_def) metis
qed

lemma db_row_InrD:
  assumes "db_row q c = (Inr v, c')"
  shows "q (c_db c) = Some v \<and> c_db c' = c_db c"
proof -
  obtain r t where "db_stmt (select q) c = (Inr r, t)" and "scan_row r t = (Inr v, c')"
    using assms unfolding db_row_def attempt_Inr_iff by blast
  then show ?thesis using db_stmt_InrD [of "select q" c r t] by (simp add: scan_row_Inr select_def) metis
qed

lemmas success_dests = tx_stmt_InrD db_stmt_InrD tx_row_InrD db_row_InrD

lemma tx_stmt_InlD: "tx_stmt f c = (Inl e, c') \<Longrightarrow> c_aborted c'"
  by (auto simp: tx_stmt_def split: prod.splits outcome.splits sum.splits if_splits)

lemma tx_row_InlD:
  assumes "tx_row q c = (Inl e, c')"
  shows "c_aborted c' \<or> (e = ErrNoRows \<and> q (c_db c) = None \<and> c_db c' = c_db c)"
proof (cases "tx_stmt (select q) c")
  case (Pair r t)
  show ?thesis
  proof (cases r)
    case (Inl e')
    then show ?thesis
      using assms Pair tx_stmt_InlD [of "select q" c e' t] by (simp add: tx_row_def attempt_def)
  next
    case (Inr x)
    then have "scan_row x t = (Inl e, c')" using assms Pair by (simp add: tx_row_def attempt_def)
    then show ?thesis
      using Inr Pair tx_stmt_InrD [of "select q" c x t] by (simp add: scan_row_Inl select_def) metis
  qed
qed

lemma atomic_with_tx:
  assumes "\<And>c v c'. body c = (Inr v, c') \<Longrightarrow> \<not> c_aborted c' \<Longrightarrow> spec (c_db c) = Some (v, c_db c')"
  shows "atomic (with_tx w body) spec"
  unfolding atomic_def
proof (intro allI impI)
  fix c c' :: conn and r
  assume "with_tx w body c = (r, c')"
  then show "case r of
      Inl e \<Rightarrow> c_db c' = c_db c \<or> (\<exists>v. spec (c_db c) = Some (v, c_db c'))
    | Inr v \<Rightarrow> spec (c_db c) = Some (v, c_db c')"
  proof (cases rule: with_tx_cases)
    case kept
    then show ?thesis by simp
  next
    case (reached v c1 c2)
    then have "spec (c_db c) = Some (v, c_db c')" using assms [of c1 v c2] by simp
    then show ?thesis using reached by auto
  qed
qed

lemma atomic_fail: "atomic (fail e) spec"
  by (simp add: atomic_def fail_def)

lemma atomic_if:
  "(b \<Longrightarrow> atomic m spec) \<Longrightarrow> (\<not> b \<Longrightarrow> atomic n spec) \<Longrightarrow> atomic (if b then m else n) spec"
  by simp

lemmas atomic_rules = atomic_with_tx atomic_if atomic_fail

lemma atomic_db_stmt:
  "atomic (db_stmt f) (\<lambda>d. case f d of Inl _ \<Rightarrow> None | Inr p \<Rightarrow> Some p)"
  unfolding atomic_def
proof (intro allI impI)
  fix c c' :: conn and r
  assume "db_stmt f c = (r, c')"
  from db_stmt_cases [OF this] show "case r of
      Inl e \<Rightarrow> c_db c' = c_db c \<or> (\<exists>v. (case f (c_db c) of Inl _ \<Rightarrow> None | Inr p \<Rightarrow> Some p) = Some (v, c_db c'))
    | Inr v \<Rightarrow> (case f (c_db c) of Inl _ \<Rightarrow> None | Inr p \<Rightarrow> Some p) = Some (v, c_db c')"
    by auto
qed

lemma atomic_success: "atomic m spec \<Longrightarrow> m c = (Inr v, c') \<Longrightarrow> spec (c_db c) = Some (v, c_db c')"
  unfolding atomic_def by fastforce

lemma atomic_either:
  "atomic m spec \<Longrightarrow> m c = (r, c') \<Longrightarrow> c_db c' = c_db c \<or> (\<exists>v. spec (c_db c) = Some (v, c_db c'))"
  unfolding atomic_def by (cases r) fastforce+

lemma atomic_keeps:
  assumes "atomic m spec" and "\<And>d v d'. J d \<Longrightarrow> spec d = Some (v, d') \<Longrightarrow> J d'"
  shows "db_keeps J m"
  unfolding db_hoare_def hoare_def
proof (intro allI impI)
  fix c :: conn
  assume J: "J (c_db c)"
  obtain r c' where m: "m c = (r, c')" by fastforce
  have "J (c_db c')" using atomic_either [OF assms(1) m] J assms(2) by metis
  then show "case m c of (Inl e, s') \<Rightarrow> J (c_db s') | (Inr v, s') \<Rightarrow> J (c_db s')"
    by (simp add: m split: sum.splits)
qed

end
