(* ===== verification/Trust_Registry.thy ===== *)
theory Trust_Registry
  imports Database
begin

text \<open>
  \<open>internal/trust/registry.go\<close>: the table of agents. The statements that write an agent's row
  are shared with the reputation, attestation and verification components.
\<close>

section \<open>Statements on \<open>agents\<close>\<close>

text \<open>\<open>INSERT INTO agents\<close>: SQLSTATE 22003 is an integer out of range, 23505 a duplicate key.\<close>

definition insert_agent :: "Agent \<Rightarrow> unit sql" where
  "insert_agent a d =
     (if \<not> int4 (ag_ReputationScore a) then Inl (PgError ''22003'')
      else if has_agent (ag_DID a) d then Inl (PgError ''23505'')
      else Inr ((), d\<lparr>t_agents := t_agents d @ [a]\<rparr>))"

text \<open>
  \<open>UPDATE agents SET reputation_score = $1 [, last_active_at = t] WHERE did = $2\<close>, returning
  the number of rows affected.
\<close>

definition scored :: "int \<Rightarrow> time option \<Rightarrow> Agent \<Rightarrow> Agent" where
  "scored score active a =
     a\<lparr>ag_ReputationScore := score,
       ag_LastActiveAt := (case active of None \<Rightarrow> ag_LastActiveAt a | Some t \<Rightarrow> t)\<rparr>"

definition set_reputation :: "int \<Rightarrow> time option \<Rightarrow> string \<Rightarrow> nat sql" where
  "set_reputation score active did d =
     (if \<not> int4 score then Inl (PgError ''22003'')
      else Inr (count_where (\<lambda>a. ag_DID a = did) (t_agents d),
             d\<lparr>t_agents := set_where (\<lambda>a. ag_DID a = did) (scored score active) (t_agents d)\<rparr>))"

definition select_score :: "string \<Rightarrow> db \<Rightarrow> int option" where
  "select_score did d = map_option ag_ReputationScore (find_agent did d)"

section \<open>Operations\<close>

text \<open>The agent the caller's pointer holds once \<open>Register\<close> has filled in the defaults.\<close>

definition with_defaults :: "time \<Rightarrow> time \<Rightarrow> Agent \<Rightarrow> Agent" where
  "with_defaults t1 t2 agent =
     (let a = (if IsZero (ag_CreatedAt agent) then agent\<lparr>ag_CreatedAt := t1\<rparr> else agent);
          a = (if IsZero (ag_LastActiveAt a) then a\<lparr>ag_LastActiveAt := t2\<rparr> else a)
      in if ag_ReputationScore a = 0 then a\<lparr>ag_ReputationScore := 500\<rparr> else a)"

definition Register :: "time \<Rightarrow> time \<Rightarrow> Agent \<Rightarrow> (conn, unit) proc" where
  "Register t1 t2 agent =
     (if ag_DID agent = [] then fail (Plain ''agent DID cannot be empty'')
      else if length (ag_PublicKey agent) = 0 then fail (Plain ''agent public key cannot be empty'')
      else attempt (db_stmt (insert_agent (with_defaults t1 t2 agent)))
             (Wrap ''failed to register agent'') (\<lambda>_. ret ()))"

definition Get :: "string \<Rightarrow> (conn, Agent) proc" where
  "Get did =
     attempt (db_row (find_agent did))
       (\<lambda>err. if errors_Is err ErrNoRows then ErrAgentNotFound else Wrap ''failed to get agent'' err)
       ret"

definition Update :: "Agent \<Rightarrow> (conn, unit) proc" where
  "Update agent =
     attempt (db_stmt (set_reputation (ag_ReputationScore agent) (Some (ag_LastActiveAt agent)) (ag_DID agent)))
       (Wrap ''failed to update agent'')
       (\<lambda>rowsAffected. if rowsAffected = 0 then fail ErrAgentNotFound else ret ())"

text \<open>\<open>ORDER BY created_at DESC\<close>; rows with equal times come in the table's order.\<close>

definition List_agents :: "(conn, Agent list) proc" where
  "List_agents =
     attempt (db_stmt (select (\<lambda>d. sort_key (\<lambda>a. - ag_CreatedAt a) (t_agents d))))
       (Wrap ''failed to list agents'') ret"

section \<open>What the statements keep\<close>

lemma with_defaults_fields [simp]:
  "ag_DID (with_defaults t1 t2 a) = ag_DID a"
  "ag_PublicKey (with_defaults t1 t2 a) = ag_PublicKey a"
  "ag_ReputationScore (with_defaults t1 t2 a) =
     (if ag_ReputationScore a = 0 then 500 else ag_ReputationScore a)"
  by (auto simp: with_defaults_def Let_def)

lemma insert_agent_has_agent:
  "insert_agent a d = Inr (v, d') \<Longrightarrow> has_agent x d' \<longleftrightarrow> x = ag_DID a \<or> has_agent x d"
  by (auto simp: insert_agent_def has_agent_def split: if_splits)

lemma insert_agent_db_ok:
  assumes "insert_agent a d = Inr (v, d')" and "db_ok d"
  shows "db_ok d'"
proof -
  have "refs_ok d'"
    using assms insert_agent_has_agent [OF assms(1)]
    by (auto simp: db_ok_def refs_ok_def insert_agent_def split: if_splits)
  moreover have "keys_ok d'" and "columns_ok d'"
    using assms by (auto simp: db_ok_defs insert_agent_def has_agent_def split: if_splits)
  ultimately show ?thesis by (simp add: db_ok_def)
qed

lemma scored_fields [simp]:
  "ag_DID (scored s la a) = ag_DID a"
  "ag_PublicKey (scored s la a) = ag_PublicKey a"
  "ag_CreatedAt (scored s la a) = ag_CreatedAt a"
  "ag_ReputationScore (scored s la a) = s"
  by (simp_all add: scored_def)

lemma set_reputation_agents:
  "set_reputation s la did d = Inr (n, d') \<Longrightarrow> map ag_DID (t_agents d') = map ag_DID (t_agents d)"
  by (auto simp: set_reputation_def map_key_set_where split: if_splits)

lemma set_reputation_has_agent:
  "set_reputation s la did d = Inr (n, d') \<Longrightarrow> has_agent x d' \<longleftrightarrow> has_agent x d"
  by (metis set_reputation_agents list.set_map has_agent_cong)

lemma set_reputation_frame:
  "set_reputation s la did d = Inr (n, d') \<Longrightarrow>
     t_reputation_events d' = t_reputation_events d \<and> t_attestations d' = t_attestations d \<and>
     t_verifications d' = t_verifications d \<and> t_memories d' = t_memories d \<and>
     t_policies d' = t_policies d \<and> t_audit_log d' = t_audit_log d"
  by (auto simp: set_reputation_def split: if_splits)

lemma set_reputation_scores:
  "set_reputation s la did d = Inr (n, d') \<Longrightarrow> a \<in> set (t_agents d') \<Longrightarrow>
     a \<in> set (t_agents d) \<or> (ag_ReputationScore a = s \<and> int4 s)"
  by (auto simp: set_reputation_def set_set_where split: if_splits)

lemma set_reputation_db_ok:
  assumes "set_reputation s la did d = Inr (n, d')" and "db_ok d"
  shows "db_ok d'"
proof -
  have mem: "has_memory i d' = has_memory i d" for i
    using set_reputation_frame [OF assms(1)] by (intro has_memory_cong) simp
  have "keys_ok d'" and "refs_ok d'"
    using assms set_reputation_frame [OF assms(1)] set_reputation_agents [OF assms(1)] mem
    by (simp_all add: db_ok_def keys_ok_def refs_ok_def set_reputation_has_agent [OF assms(1)])
  moreover have "columns_ok d'"
    using assms set_reputation_frame [OF assms(1)] set_reputation_scores [OF assms(1)]
    by (auto simp: db_ok_def columns_ok_def)
  ultimately show ?thesis by (simp add: db_ok_def)
qed

lemma find_agent_insert:
  assumes "insert_agent a d = Inr (v, d')"
  shows "find_agent did d' = (if did = ag_DID a then Some a else find_agent did d)"
proof -
  have "\<not> has_agent (ag_DID a) d" and "t_agents d' = t_agents d @ [a]"
    using assms by (auto simp: insert_agent_def split: if_splits)
  then show ?thesis by (auto simp: find_row_append has_agent_not_find split: option.splits)
qed

lemma find_agent_set_reputation:
  assumes "set_reputation s la did d = Inr (n, d')"
  shows "find_agent x d' =
     (if x = did then map_option (scored s la) (find_agent did d) else find_agent x d)"
proof -
  have "find_agent x d' =
      map_option (\<lambda>a. if ag_DID a = did then scored s la a else a) (find_agent x d)"
    using assms by (auto simp: set_reputation_def find_row_set_where split: if_splits)
  then show ?thesis by (cases "find_agent x d") (auto dest: find_row_Some)
qed

section \<open>Properties\<close>

text \<open>
  C27: registration is an insertion with defaults. On a served connection, an agent with a DID
  and a key, whose score fits the column, is refused with the server's duplicate-key error,
  and nothing changes, when its DID is registered already; otherwise it is stored, and from
  then on \<open>Get\<close> returns it under its DID, with the missing times filled in and the score 500
  if it had none, while every other DID reads as before.
\<close>

theorem Register_then_Get:
  assumes calm: "calm c" and did: "ag_DID a \<noteq> []" and key: "ag_PublicKey a \<noteq> []"
    and score: "int4 (ag_ReputationScore a)"
  shows "if has_agent (ag_DID a) (c_db c)
         then Register t1 t2 a c = (Inl (Wrap ''failed to register agent'' (PgError ''23505'')), c)
         else (\<exists>c'. Register t1 t2 a c = (Inr (), c') \<and> calm c' \<and>
                 Get (ag_DID a) c' = (Inr (with_defaults t1 t2 a), c') \<and>
                 (\<forall>did. did \<noteq> ag_DID a \<longrightarrow> fst (Get did c') = fst (Get did c)))"
proof -
  have i: "int4 (ag_ReputationScore (with_defaults t1 t2 a))"
    using score by (simp add: int4_def)
  show ?thesis
  proof (cases "has_agent (ag_DID a) (c_db c)")
    case True
    then show ?thesis
      using assms i by (simp add: Register_def attempt_def insert_agent_def)
  next
    case False
    let ?d = "c_db c\<lparr>t_agents := t_agents (c_db c) @ [with_defaults t1 t2 a]\<rparr>"
    have ins: "insert_agent (with_defaults t1 t2 a) (c_db c) = Inr ((), ?d)"
      using False i by (simp add: insert_agent_def)
    note found = find_agent_insert [OF ins]
    have "Register t1 t2 a c = (Inr (), c\<lparr>c_db := ?d\<rparr>)"
      using assms by (simp add: Register_def attempt_def ins ret_def)
    moreover have "Get (ag_DID a) (c\<lparr>c_db := ?d\<rparr>) = (Inr (with_defaults t1 t2 a), c\<lparr>c_db := ?d\<rparr>)"
      using calm found [of "ag_DID a"] by (simp add: Get_def attempt_def ret_def)
    moreover have "fst (Get x (c\<lparr>c_db := ?d\<rparr>)) = fst (Get x c)" if "x \<noteq> ag_DID a" for x
      using calm found [of x] that by (simp add: Get_def attempt_def ret_def split: option.splits)
    ultimately show ?thesis
      using False calm by (auto intro!: exI [of _ "c\<lparr>c_db := ?d\<rparr>"])
  qed
qed

definition sample_agent :: "string \<Rightarrow> int \<Rightarrow> Agent" where
  "sample_agent did score =
     \<lparr>ag_DID = did, ag_PublicKey = ''key'', ag_ReputationScore = score, ag_CreatedAt = 1000,
      ag_LastActiveAt = 2000\<rparr>"

definition sample_agents :: "(string \<times> int) list \<Rightarrow> db" where
  "sample_agents as = empty_db\<lparr>t_agents := map (\<lambda>(did, score). sample_agent did score) as\<rparr>"

definition sample_conn :: "db \<Rightarrow> conn" where
  "sample_conn d = \<lparr>c_db = d, c_outcomes = [], c_aborted = False\<rparr>"

lemma calm_sample [simp]: "calm (sample_conn d)"
  by (simp add: calm_def sample_conn_def)

lemma c_db_sample [simp]: "c_db (sample_conn d) = d"
  by (simp add: sample_conn_def)

theorem Register_then_Get_witness:
  "\<exists>c'. Register 5 6 (sample_agent ''did:a'' 0) (sample_conn empty_db) = (Inr (), c') \<and> calm c' \<and>
     Get ''did:a'' c' = (Inr (with_defaults 5 6 (sample_agent ''did:a'' 0)), c') \<and>
     (\<forall>did. did \<noteq> ''did:a'' \<longrightarrow> fst (Get did c') = fst (Get did (sample_conn empty_db)))"
  using Register_then_Get [of "sample_conn empty_db" "sample_agent ''did:a'' 0" 5 6]
  by (simp add: sample_agent_def has_agent_def empty_db_def int4_def)

end
