(* ===== verification/Policy_Port.thy ===== *)
theory Policy_Port
  imports Models
begin

text \<open>
  The interfaces of the policy engine: \<open>Store\<close> (\<open>internal/policy/evaluator.go\<close>) and \<open>Cache\<close>
  (\<open>internal/policy/cache.go\<close>), as records of functions over a state \<open>'s\<close>, and what an
  implementation promises. A Go slice of policies is an option: \<open>None\<close> is the nil slice.
\<close>

type_synonym policy_slice = "Policy list option"

definition elems :: "'a list option \<Rightarrow> 'a list" where
  "elems x = (case x of None \<Rightarrow> [] | Some ps \<Rightarrow> ps)"

definition slice_of :: "'a list \<Rightarrow> 'a list option" where
  "slice_of ps = (if ps = [] then None else Some ps)"

lemma elems_simps [simp]: "elems None = []" "elems (Some ps) = ps" "elems (slice_of ps) = ps"
  by (simp_all add: elems_def slice_of_def)

record 's PolicyStore =
  ps_GetPolicies :: "string \<Rightarrow> ('s, policy_slice) proc"
  ps_SavePolicy :: "Policy \<Rightarrow> ('s, unit) proc"

record 's PolicyCache =
  pc_GetPolicies :: "string \<Rightarrow> ('s, policy_slice) proc"
  pc_SetPolicies :: "string \<Rightarrow> policy_slice \<Rightarrow> ('s, unit) proc"
  pc_Invalidate :: "string \<Rightarrow> ('s, unit) proc"

text \<open>\<open>policies s did\<close> are the policies stored for an agent.\<close>

locale policy_store =
  fixes store :: "'s PolicyStore"
    and policies :: "'s \<Rightarrow> string \<Rightarrow> Policy list"
  assumes get_policies: "ps_GetPolicies store did s = (Inr x, s') \<Longrightarrow> elems x = policies s did"
    and get_policies_reads: "ps_GetPolicies store did s = (r, s') \<Longrightarrow> policies s' = policies s"

text \<open>
  \<open>cached s did\<close> is what a lookup would find; a failed write may have happened. (A nil slice
  in the cache reads as a miss.)
\<close>

locale policy_cache =
  fixes cache :: "'s PolicyCache"
    and cached :: "'s \<Rightarrow> string \<Rightarrow> Policy list option"
  assumes get_cached: "pc_GetPolicies cache did s = (Inr x, s') \<Longrightarrow> x = cached s did"
    and get_cached_reads: "pc_GetPolicies cache did s = (r, s') \<Longrightarrow> cached s' = cached s"
    and set_cached: "pc_SetPolicies cache did x s = (q, s') \<Longrightarrow> cached s' did = x \<or> cached s' did = cached s did"
    and set_cached_other: "pc_SetPolicies cache did x s = (q, s') \<Longrightarrow> did' \<noteq> did \<Longrightarrow> cached s' did' = cached s did'"
    and invalidated: "pc_Invalidate cache did s = (Inr u, s') \<Longrightarrow> cached s' did = None"
    and invalidated_other: "pc_Invalidate cache did s = (q, s') \<Longrightarrow> did' \<noteq> did \<Longrightarrow> cached s' did' = cached s did'"

text \<open>The same store or cache over a larger state.\<close>

definition lift_store :: "('w \<Rightarrow> 's) \<Rightarrow> ('s \<Rightarrow> 'w \<Rightarrow> 'w) \<Rightarrow> 's PolicyStore \<Rightarrow> 'w PolicyStore" where
  "lift_store get put store =
     \<lparr>ps_GetPolicies = (\<lambda>did. lift get put (ps_GetPolicies store did)),
      ps_SavePolicy = (\<lambda>p. lift get put (ps_SavePolicy store p))\<rparr>"

definition lift_cache :: "('w \<Rightarrow> 's) \<Rightarrow> ('s \<Rightarrow> 'w \<Rightarrow> 'w) \<Rightarrow> 's PolicyCache \<Rightarrow> 'w PolicyCache" where
  "lift_cache get put cache =
     \<lparr>pc_GetPolicies = (\<lambda>did. lift get put (pc_GetPolicies cache did)),
      pc_SetPolicies = (\<lambda>did x. lift get put (pc_SetPolicies cache did x)),
      pc_Invalidate = (\<lambda>did. lift get put (pc_Invalidate cache did))\<rparr>"

lemma lift_store_simps [simp]:
  "ps_GetPolicies (lift_store get put store) did = lift get put (ps_GetPolicies store did)"
  "ps_SavePolicy (lift_store get put store) p = lift get put (ps_SavePolicy store p)"
  by (simp_all add: lift_store_def)

lemma lift_cache_simps [simp]:
  "pc_GetPolicies (lift_cache get put cache) did = lift get put (pc_GetPolicies cache did)"
  "pc_SetPolicies (lift_cache get put cache) did x = lift get put (pc_SetPolicies cache did x)"
  "pc_Invalidate (lift_cache get put cache) did = lift get put (pc_Invalidate cache did)"
  by (simp_all add: lift_cache_def)

lemma policy_store_lift:
  assumes st: "policy_store store policies" and lens: "\<And>s w. get (put s w) = s"
  shows "policy_store (lift_store get put store) (\<lambda>w. policies (get w))"
proof (unfold_locales, goal_cases)
  case 1
  then show ?case using policy_store.get_policies [OF st] by (fastforce elim!: liftE)
next
  case 2
  then show ?case using policy_store.get_policies_reads [OF st] by (fastforce simp: lens elim!: liftE)
qed

lemma policy_cache_lift:
  assumes ca: "policy_cache cache cached" and lens: "\<And>s w. get (put s w) = s"
  shows "policy_cache (lift_cache get put cache) (\<lambda>w. cached (get w))"
proof (unfold_locales, goal_cases)
  case 1
  then show ?case using policy_cache.get_cached [OF ca] by (fastforce elim!: liftE)
next
  case 2
  then show ?case using policy_cache.get_cached_reads [OF ca] by (fastforce simp: lens elim!: liftE)
next
  case 3
  then show ?case using policy_cache.set_cached [OF ca] by (fastforce simp: lens elim!: liftE)
next
  case 4
  then show ?case using policy_cache.set_cached_other [OF ca] by (fastforce simp: lens elim!: liftE)
next
  case 5
  then show ?case using policy_cache.invalidated [OF ca] by (fastforce simp: lens elim!: liftE)
next
  case 6
  then show ?case using policy_cache.invalidated_other [OF ca] by (fastforce simp: lens elim!: liftE)
qed

end
