(* ===== verification/Policy_Store.thy ===== *)
theory Policy_Store
  imports Trust_Registry Policy_Port
begin

text \<open>
  \<open>internal/policy/postgres_store.go\<close>: policies in the table \<open>policies\<close>. The content of a policy is stored in a \<open>JSONB\<close> column
  and read back as the same value (its strings are UTF-8 without the NUL character).
\<close>

section \<open>Statements and operations\<close>

definition policies_of :: "string \<Rightarrow> db \<Rightarrow> Policy list" where
  "policies_of did d = filter (\<lambda>p. p_AgentDID p = did) (t_policies d)"

text \<open>The rows are appended to a nil slice, which it stays when there is none.\<close>

definition GetPolicies :: "string \<Rightarrow> (conn, policy_slice) proc" where
  "GetPolicies agentDID = attempt (db_stmt (select (policies_of agentDID))) id (\<lambda>rows. ret (slice_of rows))"

text \<open>
  \<open>INSERT ... ON CONFLICT (id) DO UPDATE SET version, content, updated_at\<close>: a row with the
  identifier keeps its \<open>agent_did\<close> and \<open>created_at\<close>.
\<close>

definition revised :: "Policy \<Rightarrow> Policy \<Rightarrow> Policy" where
  "revised p old = old\<lparr>p_Version := p_Version p, p_Content := p_Content p, p_UpdatedAt := p_UpdatedAt p\<rparr>"

definition upsert_policy :: "Policy \<Rightarrow> unit sql" where
  "upsert_policy p d =
     (if p_ID p \<in> p_ID ` set (t_policies d)
      then Inr ((), d\<lparr>t_policies := set_where (\<lambda>q. p_ID q = p_ID p) (revised p) (t_policies d)\<rparr>)
      else if \<not> has_agent (p_AgentDID p) d then Inl (PgError ''23503'')
      else Inr ((), d\<lparr>t_policies := t_policies d @ [p]\<rparr>))"

definition timed :: "time \<Rightarrow> Policy \<Rightarrow> Policy" where
  "timed now p =
     (if IsZero (p_CreatedAt p) then p\<lparr>p_CreatedAt := now, p_UpdatedAt := now\<rparr>
      else p\<lparr>p_UpdatedAt := now\<rparr>)"

definition SavePolicy :: "time \<Rightarrow> Policy \<Rightarrow> (conn, unit) proc" where
  "SavePolicy now p = db_stmt (upsert_policy (timed now p))"

section \<open>What saving does\<close>

lemma timed_fields [simp]:
  "p_ID (timed now p) = p_ID p" "p_AgentDID (timed now p) = p_AgentDID p"
  "p_Content (timed now p) = p_Content p" "p_Version (timed now p) = p_Version p"
  "p_UpdatedAt (timed now p) = now"
  by (simp_all add: timed_def)

lemma revised_fields [simp]:
  "p_ID (revised p q) = p_ID q" "p_AgentDID (revised p q) = p_AgentDID q"
  "p_Content (revised p q) = p_Content p"
  by (simp_all add: revised_def)

lemma policies_of_mem: "q \<in> set (policies_of did d) \<longleftrightarrow> q \<in> set (t_policies d) \<and> p_AgentDID q = did"
  by (auto simp: policies_of_def)

lemma upsert_policy_others:
  "upsert_policy p d = Inr (u, d') \<Longrightarrow> p_ID q \<noteq> p_ID p \<Longrightarrow> q \<in> set (t_policies d') \<longleftrightarrow> q \<in> set (t_policies d)"
  by (auto simp: upsert_policy_def set_set_where split: if_splits)

lemma upsert_policy_db_ok:
  assumes "upsert_policy p d = Inr (u, d')" and "db_ok d"
  shows "db_ok d'"
proof -
  have a: "t_agents d' = t_agents d" "t_reputation_events d' = t_reputation_events d"
    "t_attestations d' = t_attestations d" "t_verifications d' = t_verifications d"
    "t_memories d' = t_memories d"
    using assms(1) by (auto simp: upsert_policy_def split: if_splits)
  have ids: "distinct (map p_ID (t_policies d'))"
    using assms by (auto simp: upsert_policy_def db_ok_defs map_key_set_where split: if_splits)
  have "has_agent (p_AgentDID q) d" if "q \<in> set (t_policies d')" for q
    using assms that by (auto simp: upsert_policy_def db_ok_defs set_set_where split: if_splits)
  moreover have "has_memory i d' = has_memory i d" for i using a by (intro has_memory_cong) simp
  ultimately show ?thesis using assms(2) a ids by (auto simp: db_ok_defs has_agent_def)
qed

lemma GetPolicies_calm [simp]: "calm c \<Longrightarrow> GetPolicies did c = (Inr (slice_of (policies_of did (c_db c))), c)"
  by (simp add: GetPolicies_def attempt_def select_def ret_def)

section \<open>The store keeps the contract\<close>

definition PolicyPostgres :: "time \<Rightarrow> conn PolicyStore" where
  "PolicyPostgres now = \<lparr>ps_GetPolicies = GetPolicies, ps_SavePolicy = SavePolicy now\<rparr>"

lemma GetPolicies_cases:
  assumes "GetPolicies did c = (r, c')"
  shows "c_db c' = c_db c \<and> (r = Inr x \<longrightarrow> x = slice_of (policies_of did (c_db c)))"
proof -
  obtain q where q: "db_stmt (select (policies_of did)) c = (q, c')"
    and r: "r = (case q of Inl e \<Rightarrow> Inl e | Inr v \<Rightarrow> Inr (slice_of v))"
    using assms
    by (auto simp: GetPolicies_def attempt_def ret_def split: sum.splits prod.splits)
  from db_stmt_cases [OF q] r show ?thesis by (auto simp: select_def)
qed

interpretation postgres: policy_store "PolicyPostgres now" "\<lambda>c did. policies_of did (c_db c)" for now
proof (unfold_locales, goal_cases)
  case (1 did s x s')
  then show ?case using GetPolicies_cases [of did s "Inr x" s' x] by (simp add: PolicyPostgres_def)
next
  case (2 did s r s')
  then show ?case using GetPolicies_cases [of did s r s'] by (simp add: PolicyPostgres_def)
qed

section \<open>Properties\<close>

text \<open>
  C30: saving a policy and reading it back. On a served connection and in a database that
  satisfies the schema, \<open>SavePolicy\<close> fails only for a new identifier with an unregistered
  agent. Afterwards the owner's policies hold exactly one policy with the identifier, with the
  content given and the time of saving, and every other policy of every agent is as it was.
  The owner is the agent named only when the identifier was new: a policy that exists keeps
  the agent it had, so that saving under another agent's identifier replaces that agent's rules.
\<close>

theorem SavePolicy_then_Get:
  assumes calm: "calm c" and ok: "db_ok (c_db c)"
    and agent: "has_agent (p_AgentDID p) (c_db c) \<or> p_ID p \<in> p_ID ` set (t_policies (c_db c))"
  shows "\<exists>c' owner. SavePolicy now p c = (Inr (), c') \<and> db_ok (c_db c') \<and>
    owner = (case find_row p_ID (p_ID p) (t_policies (c_db c)) of None \<Rightarrow> p_AgentDID p | Some q \<Rightarrow> p_AgentDID q) \<and>
    (\<exists>q ps. GetPolicies owner c' = (Inr (Some ps), c') \<and> filter (\<lambda>q. p_ID q = p_ID p) ps = [q] \<and>
       p_Content q = p_Content p \<and> p_Version q = p_Version p \<and> p_UpdatedAt q = now) \<and>
    (\<forall>did. filter (\<lambda>q. p_ID q \<noteq> p_ID p) (policies_of did (c_db c')) =
            filter (\<lambda>q. p_ID q \<noteq> p_ID p) (policies_of did (c_db c)))"
proof -
  let ?p = "timed now p" and ?d = "c_db c"
  define d' where "d' = (if p_ID p \<in> p_ID ` set (t_policies ?d)
      then ?d\<lparr>t_policies := set_where (\<lambda>q. p_ID q = p_ID p) (revised ?p) (t_policies ?d)\<rparr>
      else ?d\<lparr>t_policies := t_policies ?d @ [?p]\<rparr>)"
  have up: "upsert_policy ?p ?d = Inr ((), d')"
    using agent by (auto simp: upsert_policy_def d'_def)
  define owner where "owner = (case find_row p_ID (p_ID p) (t_policies ?d) of
      None \<Rightarrow> p_AgentDID p | Some q \<Rightarrow> p_AgentDID q)"
  define q where "q = (case find_row p_ID (p_ID p) (t_policies ?d) of None \<Rightarrow> ?p | Some r \<Rightarrow> revised ?p r)"
  have ok': "db_ok d'" by (rule upsert_policy_db_ok [OF up ok])
  have q: "find_row p_ID (p_ID p) (t_policies d') = Some q"
    by (cases "find_row p_ID (p_ID p) (t_policies ?d)")
       (auto simp: d'_def q_def find_row_append find_row_set_where_same
          find_row_None_iff [symmetric])
  have fields: "p_AgentDID q = owner" "p_Content q = p_Content p" "p_Version q = p_Version p" "p_UpdatedAt q = now"
    by (auto simp: q_def owner_def revised_def split: option.splits)
  have "filter (\<lambda>q. p_ID q = p_ID p) (t_policies d') = [q]"
    using filter_find_row [of p_ID "t_policies d'" "p_ID p"] ok' q by (simp add: db_ok_defs)
  moreover have "filter (\<lambda>q. p_ID q = p_ID p) (policies_of owner d') =
      filter (\<lambda>q. p_AgentDID q = owner) (filter (\<lambda>q. p_ID q = p_ID p) (t_policies d'))"
    unfolding policies_of_def filter_filter by (rule filter_cong) auto
  ultimately have one: "filter (\<lambda>q. p_ID q = p_ID p) (policies_of owner d') = [q]"
    using fields(1) by simp
  have others: "filter (\<lambda>q. p_ID q \<noteq> p_ID p) (policies_of did d') =
      filter (\<lambda>q. p_ID q \<noteq> p_ID p) (policies_of did ?d)" for did
  proof -
    have "filter (\<lambda>q. p_AgentDID q = did \<and> p_ID q \<noteq> p_ID p) (set_where (\<lambda>q. p_ID q = p_ID p) (revised ?p) t) =
        filter (\<lambda>q. p_AgentDID q = did \<and> p_ID q \<noteq> p_ID p) t" for t
      by (induction t) auto
    then show ?thesis by (simp add: d'_def policies_of_def conj_commute)
  qed
  have "policies_of owner d' \<noteq> []" using one by auto
  then have get: "GetPolicies owner (c\<lparr>c_db := d'\<rparr>) = (Inr (Some (policies_of owner d')), c\<lparr>c_db := d'\<rparr>)"
    using calm by (simp add: slice_of_def)
  show ?thesis
  proof (rule exI [of _ "c\<lparr>c_db := d'\<rparr>"], rule exI [of _ owner], intro conjI)
    show "SavePolicy now p c = (Inr (), c\<lparr>c_db := d'\<rparr>)" using calm up by (simp add: SavePolicy_def)
  qed (use ok' others get one fields in \<open>auto simp: owner_def intro!: exI [of _ q]\<close>)
qed

definition sample_policy :: "string \<Rightarrow> string \<Rightarrow> MemoryRule list \<Rightarrow> Policy" where
  "sample_policy i did rules = \<lparr>p_ID = i, p_AgentDID = did, p_Version = ''1'',
     p_Content = \<lparr>c_MemoryRules = rules, c_DelegationRules = [], c_PIIRules = [], c_AuditRules = []\<rparr>,
     p_CreatedAt = 1, p_UpdatedAt = 1\<rparr>"

definition sample_db_policies :: "Policy list \<Rightarrow> db" where
  "sample_db_policies ps = (sample_agents [(''did:a'', 500), (''did:b'', 500)])\<lparr>t_policies := ps\<rparr>"

theorem SavePolicy_then_Get_witness:
  "\<exists>c' ps q. SavePolicy 9 (sample_policy ''p1'' ''did:b'' [])
      (sample_conn (sample_db_policies [sample_policy ''p1'' ''did:a'' []])) = (Inr (), c') \<and>
     GetPolicies ''did:a'' c' = (Inr (Some ps), c') \<and> filter (\<lambda>q. p_ID q = ''p1'') ps = [q] \<and> p_UpdatedAt q = 9"
proof -
  let ?c = "sample_conn (sample_db_policies [sample_policy ''p1'' ''did:a'' []])"
  have "db_ok (c_db ?c)" "p_ID (sample_policy ''p1'' ''did:b'' []) \<in> p_ID ` set (t_policies (c_db ?c))"
    and own: "find_row p_ID ''p1'' (t_policies (c_db ?c)) = Some (sample_policy ''p1'' ''did:a'' [])"
    by (simp_all add: sample_db_policies_def sample_agents_def sample_agent_def empty_db_def db_ok_defs
        has_agent_def sample_policy_def int4_def)
  then show ?thesis
    using SavePolicy_then_Get [of ?c "sample_policy ''p1'' ''did:b'' []" 9]
    by (auto simp: sample_policy_def)
qed

end
