(* ===== verification/Valkey.thy ===== *)
theory Valkey
  imports Database
begin

text \<open>
  The Valkey client as the code uses it. The server is not this program's: its commands are a
  record of functions, and the locale \<open>kv_client\<close> states what the documentation promises of
  them. A reference server, executable, shows that the promises can be kept.

  A value is the text the code stores: a plain text (the key an index entry holds), the JSON
  document of a memory (which leaves out the embedding) or the JSON document of a slice of
  policies, \<open>None\<close> being the nil slice, written \<open>null\<close>. Documents are represented by what
  they decode to.
\<close>

section \<open>Values\<close>

datatype kvalue = VText string | VMemory Memory | VPolicies "Policy list option"

fun unmarshal_memory :: "kvalue \<Rightarrow> error + Memory" where
  "unmarshal_memory (VMemory m) = Inr m"
| "unmarshal_memory _ = Inl (Plain ''json: cannot unmarshal'')"

fun unmarshal_policies :: "kvalue \<Rightarrow> error + Policy list option" where
  "unmarshal_policies (VPolicies ps) = Inr ps"
| "unmarshal_policies _ = Inl (Plain ''json: cannot unmarshal'')"

section \<open>The commands\<close>

text \<open>
  \<open>GET\<close> (the nil reply is \<open>None\<close>), \<open>SET ... EX\<close>, \<open>DEL\<close>, \<open>ZADD\<close>, \<open>ZREMRANGEBYRANK\<close>, \<open>SCAN\<close>
  with a cursor, a pattern and a count, and \<open>PING\<close>.
\<close>

record 's kv_commands =
  kv_get :: "string \<Rightarrow> ('s, kvalue option) proc"
  kv_setex :: "string \<Rightarrow> kvalue \<Rightarrow> int \<Rightarrow> ('s, unit) proc"
  kv_del :: "string \<Rightarrow> ('s, unit) proc"
  kv_zadd :: "string \<Rightarrow> int \<Rightarrow> string \<Rightarrow> ('s, unit) proc"
  kv_zremrangebyrank :: "string \<Rightarrow> int \<Rightarrow> int \<Rightarrow> ('s, unit) proc"
  kv_scan :: "nat \<Rightarrow> string \<Rightarrow> int \<Rightarrow> ('s, string list \<times> nat) proc"
  kv_ping :: "('s, unit) proc"

text \<open>
  \<open>entry s k\<close> is the string value that key \<open>k\<close> has in state \<open>s\<close>, if it has not expired. A
  \<open>SET\<close> whose reply is lost may have happened. Commands on sorted sets change no string.
\<close>

locale kv_client =
  fixes client :: "'s kv_commands"
    and entry :: "'s \<Rightarrow> string \<Rightarrow> kvalue option"
  assumes get_reads: "kv_get client k s = (g, s') \<Longrightarrow> entry s' = entry s"
    and get_entry: "kv_get client k s = (Inr v, s') \<Longrightarrow> v = entry s k"
    and set_entry: "kv_setex client k x t s = (Inr u, s') \<Longrightarrow> entry s' = (entry s)(k \<mapsto> x)"
    and set_lost: "kv_setex client k x t s = (Inl e, s') \<Longrightarrow>
      entry s' = entry s \<or> entry s' = (entry s)(k \<mapsto> x)"
    and del_entry: "kv_del client k s = (Inr u, s') \<Longrightarrow> entry s' = (entry s)(k := None)"
    and del_lost: "kv_del client k s = (Inl e, s') \<Longrightarrow>
      entry s' = entry s \<or> entry s' = (entry s)(k := None)"
    and zadd_entry: "kv_zadd client k z member s = (q, s') \<Longrightarrow> entry s' = entry s"
    and zrem_entry: "kv_zremrangebyrank client k a b s = (q, s') \<Longrightarrow> entry s' = entry s"
    and scan_reads: "kv_scan client n p z s = (w, s') \<Longrightarrow> entry s' = entry s"
    and ping_reads: "kv_ping client s = (q, s') \<Longrightarrow> entry s' = entry s"
begin

lemma set_other: "kv_setex client k x t s = (r, s') \<Longrightarrow> j \<noteq> k \<Longrightarrow> entry s' j = entry s j"
  using set_entry [of k x t s _ s'] set_lost [of k x t s _ s'] by (cases r) auto

lemma set_either: "kv_setex client k x t s = (r, s') \<Longrightarrow> entry s' k = entry s k \<or> entry s' k = Some x"
  using set_entry [of k x t s _ s'] set_lost [of k x t s _ s'] by (cases r) auto

lemma del_other: "kv_del client k s = (r, s') \<Longrightarrow> j \<noteq> k \<Longrightarrow> entry s' j = entry s j"
  using del_entry [of k s _ s'] del_lost [of k s _ s'] by (cases r) auto

lemma del_either: "kv_del client k s = (r, s') \<Longrightarrow> entry s' k = entry s k \<or> entry s' k = None"
  using del_entry [of k s _ s'] del_lost [of k s _ s'] by (cases r) auto

end

text \<open>
  In a state that is \<open>served\<close> the commands the code relies on succeed; \<open>SET\<close> needs a positive time
  to live.
\<close>

locale served_client = kv_client +
  fixes served :: "'s \<Rightarrow> bool"
  assumes get_served: "served s \<Longrightarrow> \<exists>s'. kv_get client k s = (Inr (entry s k), s') \<and> served s'"
    and set_served: "served s \<Longrightarrow> 0 < t \<Longrightarrow> \<exists>s'. kv_setex client k x t s = (Inr (), s') \<and> served s'"
    and del_served: "served s \<Longrightarrow> \<exists>s'. kv_del client k s = (Inr (), s') \<and> served s'"
    and zadd_served: "served s \<Longrightarrow> \<exists>s'. kv_zadd client k z member s = (Inr (), s') \<and> served s'"
    and zrem_served: "served s \<Longrightarrow> \<exists>s'. kv_zremrangebyrank client k a b s = (Inr (), s') \<and> served s'"

text \<open>
  \<open>SCAN\<close> comes to an end: \<open>laps s n\<close> bounds the calls that an iteration at cursor \<open>n\<close> still needs.
  In a state that is \<open>running\<close> the context of the request is not cancelled.
\<close>

locale scanning_client = kv_client +
  fixes running :: "'s \<Rightarrow> bool" and laps :: "'s \<Rightarrow> nat \<Rightarrow> nat"
  assumes scan_advances: "kv_scan client n p z s = (Inr (keys, n'), s') \<Longrightarrow> n' \<noteq> 0 \<Longrightarrow> laps s' n' < laps s n"
    and scan_running: "kv_scan client n p z s = (w, s') \<Longrightarrow> running s \<Longrightarrow>
      running s' \<and> w \<noteq> Inl (Driver ''context canceled'')"
    and get_running: "kv_get client k s = (g, s') \<Longrightarrow> laps s' = laps s \<and> (running s \<longrightarrow> running s')"

text \<open>The state of the service: its database connection, and the state of its Valkey client.\<close>

type_synonym 'k world = "conn \<times> 'k"

definition on_conn :: "conn \<Rightarrow> 'k world \<Rightarrow> 'k world" where
  "on_conn c w = (c, snd w)"

definition on_kv :: "'k \<Rightarrow> 'k world \<Rightarrow> 'k world" where
  "on_kv k w = (fst w, k)"

lemma on_simps [simp]: "fst (on_conn c w) = c" "snd (on_conn c w) = snd w" "fst (on_kv k w) = fst w" "snd (on_kv k w) = k"
  by (simp_all add: on_conn_def on_kv_def)

section \<open>A server that keeps the promises\<close>

text \<open>
  Strings with their time of expiry, sorted sets, the clock, and the outcomes of the calls to
  come. Keys of the two kinds are kept apart; \<open>SCAN\<close> answers in one batch with every key that
  is present, in the order of insertion, and leaves the pattern to the argument \<open>glob\<close>.
\<close>

record server =
  k_strings :: "(string \<times> kvalue \<times> time) list"
  k_zsets :: "(string \<times> (string \<times> int) list) list"
  k_now :: time
  k_outcomes :: "outcome list"

definition server_entry :: "server \<Rightarrow> string \<Rightarrow> kvalue option" where
  "server_entry s k =
     (case map_of (k_strings s) k of
        None \<Rightarrow> None
      | Some (v, expiry) \<Rightarrow> if k_now s < expiry then Some v else None)"

definition server_call :: "(server \<Rightarrow> error + 'a \<times> server) \<Rightarrow> (server, 'a) proc" where
  "server_call f s =
     (case k_outcomes s of
        [] \<Rightarrow> (case f s of Inl e \<Rightarrow> (Inl e, s) | Inr (v, s') \<Rightarrow> (Inr v, s'))
      | Served # os \<Rightarrow>
          (case f (s\<lparr>k_outcomes := os\<rparr>) of
             Inl e \<Rightarrow> (Inl e, s\<lparr>k_outcomes := os\<rparr>) | Inr (v, s') \<Rightarrow> (Inr v, s'))
      | Refused e # os \<Rightarrow> (Inl (Driver e), s\<lparr>k_outcomes := os\<rparr>)
      | Lost e # os \<Rightarrow>
          (Inl (Driver e),
           case f (s\<lparr>k_outcomes := os\<rparr>) of Inl _ \<Rightarrow> s\<lparr>k_outcomes := os\<rparr> | Inr (v, s') \<Rightarrow> s'))"

definition server_set :: "string \<Rightarrow> kvalue \<Rightarrow> int \<Rightarrow> server \<Rightarrow> error + unit \<times> server" where
  "server_set k x t s =
     (if t \<le> 0 then Inl (Plain ''ERR invalid expire time in 'set' command'')
      else Inr ((), s\<lparr>k_strings := filter (\<lambda>(j, _). j \<noteq> k) (k_strings s) @
                        [(k, x, k_now s + 1000000 * t)]\<rparr>))"

definition server_zadd :: "string \<Rightarrow> int \<Rightarrow> string \<Rightarrow> server \<Rightarrow> error + unit \<times> server" where
  "server_zadd k z x s =
     (let old = (case map_of (k_zsets s) k of None \<Rightarrow> [] | Some zs \<Rightarrow> filter (\<lambda>(y, _). y \<noteq> x) zs)
      in Inr ((), s\<lparr>k_zsets := (k, old @ [(x, z)]) # filter (\<lambda>(j, _). j \<noteq> k) (k_zsets s)\<rparr>))"

definition server_zrem :: "string \<Rightarrow> int \<Rightarrow> int \<Rightarrow> server \<Rightarrow> error + unit \<times> server" where
  "server_zrem k a b s =
     (case map_of (k_zsets s) k of
        None \<Rightarrow> Inr ((), s)
      | Some zs \<Rightarrow>
          let n = int (length zs);
              lo = nat (if a < 0 then max 0 (n + a) else a);
              hi = (if b < 0 then n + b else b);
              sorted = sort_key snd zs
          in Inr ((), s\<lparr>k_zsets := (k, take lo sorted @ drop (max lo (nat (hi + 1))) sorted) #
                              filter (\<lambda>(j, _). j \<noteq> k) (k_zsets s)\<rparr>))"

definition reference_server :: "(string \<Rightarrow> string \<Rightarrow> bool) \<Rightarrow> server kv_commands" where
  "reference_server glob =
     \<lparr>kv_get = (\<lambda>k. server_call (\<lambda>s. Inr (server_entry s k, s))),
      kv_setex = (\<lambda>k x t. server_call (server_set k x t)),
      kv_del = (\<lambda>k. server_call (\<lambda>s. Inr ((), s\<lparr>k_strings := filter (\<lambda>(j, _). j \<noteq> k) (k_strings s)\<rparr>))),
      kv_zadd = (\<lambda>k z x. server_call (server_zadd k z x)),
      kv_zremrangebyrank = (\<lambda>k a b. server_call (server_zrem k a b)),
      kv_scan = (\<lambda>cursor p n. server_call (\<lambda>s. Inr ((filter (glob p)
         (map fst (filter (\<lambda>(k, v, e). k_now s < e) (k_strings s)) @ map fst (k_zsets s)), 0), s))),
      kv_ping = server_call (\<lambda>s. Inr ((), s))\<rparr>"

lemma server_entry_frame [simp]:
  "server_entry (s\<lparr>k_outcomes := os\<rparr>) = server_entry s"
  "server_entry (s\<lparr>k_zsets := zs\<rparr>) = server_entry s"
  by (auto simp: server_entry_def fun_eq_iff split: option.splits)

lemma server_call_cases:
  assumes "server_call f s = (r, s')"
  obtains s0 where "server_entry s0 = server_entry s" "k_now s0 = k_now s"
    "((\<exists>e. r = Inl e) \<and> s' = s0) \<or> (\<exists>v. f s0 = Inr (v, s') \<and> (r = Inr v \<or> (\<exists>e. r = Inl e)))"
proof -
  define s0 where "s0 = (case k_outcomes s of [] \<Rightarrow> s | _ # os \<Rightarrow> s\<lparr>k_outcomes := os\<rparr>)"
  have "server_entry s0 = server_entry s" "k_now s0 = k_now s"
    by (simp_all add: s0_def split: list.splits)
  moreover have "((\<exists>e. r = Inl e) \<and> s' = s0) \<or>
      (\<exists>v. f s0 = Inr (v, s') \<and> (r = Inr v \<or> (\<exists>e. r = Inl e)))"
    using assms unfolding server_call_def s0_def
    by (auto split: list.splits outcome.splits sum.splits prod.splits)
  ultimately show thesis by (rule that)
qed

lemma map_of_filter_key: "map_of (filter (\<lambda>(j, _). j \<noteq> k) xs) i = (if i = k then None else map_of xs i)"
  by (induction xs) auto

lemma server_reads:
  assumes "server_call f s = (r, s')" and "\<And>s v s'. f s = Inr (v, s') \<Longrightarrow> server_entry s' = server_entry s"
  shows "server_entry s' = server_entry s"
  using assms(1) by (rule server_call_cases) (use assms(2) in auto)

lemma server_writes:
  assumes "server_call f s = (r, s')" and "\<And>s v s'. f s = Inr (v, s') \<Longrightarrow> server_entry s' = g (server_entry s)"
  shows "server_entry s' = g (server_entry s) \<or> ((\<exists>e. r = Inl e) \<and> server_entry s' = server_entry s)"
  using assms(1) by (rule server_call_cases) (use assms(2) in auto)

lemma server_set_entry: "server_set k x t s = Inr (v, s') \<Longrightarrow> server_entry s' = (server_entry s)(k \<mapsto> x)"
  by (auto simp: server_set_def server_entry_def fun_eq_iff map_add_def map_of_filter_key
      split: if_splits option.splits)

lemma server_del_entry:
  "server_entry (s\<lparr>k_strings := filter (\<lambda>(j, _). j \<noteq> k) (k_strings s)\<rparr>) = (server_entry s)(k := None)"
  by (auto simp: server_entry_def fun_eq_iff map_of_filter_key split: option.splits)

interpretation reference: kv_client "reference_server glob" server_entry for glob
proof (unfold_locales, goal_cases)
  case (2 k s v s')
  then have "server_call (\<lambda>s. Inr (server_entry s k, s)) s = (Inr v, s')"
    by (simp add: reference_server_def)
  then show ?case by (rule server_call_cases) auto
next
  case (3 k x t s u s')
  then show ?case
    using server_writes [of "server_set k x t" s "Inr u" s' "\<lambda>m. m(k \<mapsto> x)"]
    by (auto simp: reference_server_def dest: server_set_entry)
next
  case (4 k x t s e s')
  then show ?case
    using server_writes [of "server_set k x t" s "Inl e" s' "\<lambda>m. m(k \<mapsto> x)"]
    by (auto simp: reference_server_def dest: server_set_entry)
next
  case (5 k s u s')
  then show ?case
    using server_writes [of _ s "Inr u" s' "\<lambda>m. m(k := None)"]
    by (fastforce simp: reference_server_def server_del_entry)
next
  case (6 k s e s')
  then show ?case
    using server_writes [of _ s "Inl e" s' "\<lambda>m. m(k := None)"]
    by (fastforce simp: reference_server_def server_del_entry)
qed (auto simp: reference_server_def server_zadd_def server_zrem_def Let_def
       elim!: server_reads split: option.splits)

interpretation reference_calm: served_client "reference_server glob" server_entry "\<lambda>s. k_outcomes s = []" for glob
  by unfold_locales
     (auto simp: reference_server_def server_call_def server_set_def server_zadd_def server_zrem_def Let_def
        split: option.splits)

definition server_running :: "server \<Rightarrow> bool" where
  "server_running s \<longleftrightarrow>
     Refused ''context canceled'' \<notin> set (k_outcomes s) \<and> Lost ''context canceled'' \<notin> set (k_outcomes s)"

lemma server_call_running:
  assumes "server_call (\<lambda>s. Inr (f s, s)) s = (r, s')" and "server_running s"
  shows "server_running s' \<and> r \<noteq> Inl (Driver ''context canceled'')"
  using assms by (auto simp: server_call_def server_running_def split: list.splits outcome.splits)

interpretation reference_scan: scanning_client "reference_server glob" server_entry server_running "\<lambda>_ _. 0" for glob
proof (unfold_locales, goal_cases)
  case (1 n p z s keys n' s')
  then show ?case
    by (auto simp: reference_server_def server_call_def split: list.splits outcome.splits)
next
  case (2 n p z s w s')
  then show ?case by (auto simp: reference_server_def dest!: server_call_running)
next
  case (3 k s g s')
  then show ?case by (auto simp: reference_server_def dest!: server_call_running)
qed

end
