(* ===== verification/Policy_Cache.thy ===== *)
theory Policy_Cache
  imports Policy_Port Valkey
begin

text \<open>
  \<open>internal/policy/cache.go\<close>: the cache of policies in Valkey, under one key for each agent and
  with a time to live of five minutes.
\<close>

section \<open>Operations\<close>

definition cache_ttl :: int where
  "cache_ttl = 5 * 60"

definition cache_key :: "string \<Rightarrow> string" where
  "cache_key agentDID = ''acumius:policy:cache:'' @ agentDID"

definition GetPolicies_cached :: "'s kv_commands \<Rightarrow> string \<Rightarrow> ('s, policy_slice) proc" where
  "GetPolicies_cached client agentDID =
     attempt (kv_get client (cache_key agentDID)) (Wrap ''valkey get'') (\<lambda>reply.
       case reply of
         None \<Rightarrow> ret None
       | Some data \<Rightarrow>
           (case unmarshal_policies data of
              Inl e \<Rightarrow> fail (Wrap ''unmarshal policies'' e)
            | Inr policies \<Rightarrow> ret policies))"

definition SetPolicies :: "'s kv_commands \<Rightarrow> string \<Rightarrow> policy_slice \<Rightarrow> ('s, unit) proc" where
  "SetPolicies client agentDID policies =
     attempt (kv_setex client (cache_key agentDID) (VPolicies policies) cache_ttl)
       (Wrap ''valkey set'') (\<lambda>_. ret ())"

definition Invalidate :: "'s kv_commands \<Rightarrow> string \<Rightarrow> ('s, unit) proc" where
  "Invalidate client agentDID =
     attempt (kv_del client (cache_key agentDID)) (Wrap ''valkey del'') (\<lambda>_. ret ())"

definition ValkeyCache :: "'s kv_commands \<Rightarrow> 's PolicyCache" where
  "ValkeyCache client =
     \<lparr>pc_GetPolicies = GetPolicies_cached client, pc_SetPolicies = SetPolicies client,
      pc_Invalidate = Invalidate client\<rparr>"

section \<open>The cache keeps the contract\<close>

definition cached_policies :: "('s \<Rightarrow> string \<Rightarrow> kvalue option) \<Rightarrow> 's \<Rightarrow> string \<Rightarrow> Policy list option" where
  "cached_policies entry s did =
     (case entry s (cache_key did) of Some (VPolicies (Some ps)) \<Rightarrow> Some ps | _ \<Rightarrow> None)"

lemma cache_key_inj [simp]: "cache_key a = cache_key b \<longleftrightarrow> a = b"
  by (simp add: cache_key_def)

lemma unmarshal_policies_Inr: "unmarshal_policies v = Inr x \<longleftrightarrow> v = VPolicies x"
  by (cases v) auto

lemma attempt_ret_cases:
  assumes "attempt m w ret s = (r, s')"
  obtains q where "m s = (q, s')"
  using assms by (auto simp: attempt_def ret_def split: sum.splits prod.splits)

lemma policy_cache_ValkeyCache:
  assumes "kv_client client entry"
  shows "policy_cache (ValkeyCache client) (cached_policies entry)"
proof (unfold_locales, goal_cases)
  case (1 did s x s')
  then obtain v t where v: "kv_get client (cache_key did) s = (Inr v, t)"
    and x: "(case v of None \<Rightarrow> ret None | Some data \<Rightarrow> (case unmarshal_policies data of
              Inl e \<Rightarrow> fail (Wrap ''unmarshal policies'' e) | Inr policies \<Rightarrow> ret policies)) t = (Inr x, s')"
    by (auto simp: ValkeyCache_def GetPolicies_cached_def attempt_Inr_iff)
  have "v = entry s (cache_key did)" by (rule kv_client.get_entry [OF assms v])
  then show ?case using x
    by (auto simp: cached_policies_def ret_def fail_def unmarshal_policies_Inr
        split: option.splits sum.splits kvalue.splits)
next
  case (2 did s r s')
  then obtain g t where "kv_get client (cache_key did) s = (g, t)" and "t = s'"
    by (auto simp: ValkeyCache_def GetPolicies_cached_def attempt_def ret_def fail_def
        split: sum.splits prod.splits option.splits)
  then have "entry s' = entry s" using kv_client.get_reads [OF assms] by blast
  then show ?case by (simp add: cached_policies_def fun_eq_iff)
next
  case (3 did x s q s')
  then obtain p where "kv_setex client (cache_key did) (VPolicies x) cache_ttl s = (p, s')"
    by (auto simp: ValkeyCache_def SetPolicies_def elim: attempt_ret_cases)
  from kv_client.set_either [OF assms this] show ?case
    by (auto simp: cached_policies_def split: option.splits)
next
  case (4 did x s q s' did')
  then obtain p where "kv_setex client (cache_key did) (VPolicies x) cache_ttl s = (p, s')"
    by (auto simp: ValkeyCache_def SetPolicies_def elim: attempt_ret_cases)
  from kv_client.set_other [OF assms this, of "cache_key did'"] 4 show ?case
    by (simp add: cached_policies_def)
next
  case (5 did s u s')
  then obtain v where "kv_del client (cache_key did) s = (Inr v, s')"
    by (auto simp: ValkeyCache_def Invalidate_def attempt_Inr_iff ret_def)
  from kv_client.del_entry [OF assms this] show ?case by (simp add: cached_policies_def)
next
  case (6 did s q s' did')
  then obtain p where "kv_del client (cache_key did) s = (p, s')"
    by (auto simp: ValkeyCache_def Invalidate_def elim: attempt_ret_cases)
  from kv_client.del_other [OF assms this, of "cache_key did'"] 6 show ?case
    by (simp add: cached_policies_def)
qed

interpretation valkey_cache: policy_cache
  "ValkeyCache (reference_server glob)" "cached_policies server_entry" for glob
  by (rule policy_cache_ValkeyCache [OF reference.kv_client_axioms])

end
