(* ===== verification/Policy_Evaluator.thy ===== *)
theory Policy_Evaluator
  imports Policy_Store Policy_Cache
begin

text \<open>
  \<open>internal/policy/evaluator.go\<close>: the decision over an agent's rules, and where the rules come
  from (the cache first, then the store). \<open>uf\<close> is Unicode case folding beyond ASCII.
\<close>

section \<open>The decision\<close>

record Request =
  rq_AgentDID :: string
  rq_Action :: string
  rq_MemoryType :: string
  rq_Namespace :: string

record Result =
  rs_Allowed :: bool
  rs_Reason :: string

definition actionMatches :: "(string \<Rightarrow> string \<Rightarrow> bool) \<Rightarrow> string \<Rightarrow> string \<Rightarrow> bool" where
  "actionMatches uf ruleAction reqAction = (if ruleAction = ''*'' then True else EqualFold uf ruleAction reqAction)"

fun stringMatches :: "(string \<Rightarrow> string \<Rightarrow> bool) \<Rightarrow> string list \<Rightarrow> string \<Rightarrow> bool" where
  "stringMatches uf [] item = False"
| "stringMatches uf (val # rest) item =
     (if val = ''*'' \<or> EqualFold uf val item then True else stringMatches uf rest item)"

text \<open>The two nested loops; \<open>Inl\<close> is the early return, the pair the variables \<open>allowed\<close> and \<open>reason\<close>.\<close>

fun scan_rules ::
  "(string \<Rightarrow> string \<Rightarrow> bool) \<Rightarrow> Request \<Rightarrow> string \<Rightarrow> MemoryRule list \<Rightarrow> bool \<times> string \<Rightarrow> Result + bool \<times> string"
where
  "scan_rules uf req pid [] acc = Inr acc"
| "scan_rules uf req pid (rule # rules) acc =
     (if \<not> actionMatches uf (mr_Action rule) (rq_Action req) then scan_rules uf req pid rules acc
      else if \<not> stringMatches uf (mr_TargetTypes rule) (rq_MemoryType req) then scan_rules uf req pid rules acc
      else if \<not> stringMatches uf (mr_Namespaces rule) (rq_Namespace req) then scan_rules uf req pid rules acc
      else if mr_Effect rule = ''deny''
      then Inl \<lparr>rs_Allowed = False, rs_Reason = ''explicit deny by policy '' @ pid\<rparr>
      else if mr_Effect rule = ''allow''
      then scan_rules uf req pid rules (True, ''allowed by policy '' @ pid)
      else scan_rules uf req pid rules acc)"

fun scan_policies ::
  "(string \<Rightarrow> string \<Rightarrow> bool) \<Rightarrow> Request \<Rightarrow> Policy list \<Rightarrow> bool \<times> string \<Rightarrow> Result"
where
  "scan_policies uf req [] acc = \<lparr>rs_Allowed = fst acc, rs_Reason = snd acc\<rparr>"
| "scan_policies uf req (p # ps) acc =
     (case scan_rules uf req (p_ID p) (c_MemoryRules (p_Content p)) acc of
        Inl result \<Rightarrow> result
      | Inr acc' \<Rightarrow> scan_policies uf req ps acc')"

definition decide :: "(string \<Rightarrow> string \<Rightarrow> bool) \<Rightarrow> Request \<Rightarrow> Policy list \<Rightarrow> Result" where
  "decide uf req policies =
     (if length policies = 0 then \<lparr>rs_Allowed = False, rs_Reason = ''no policies found (default deny)''\<rparr>
      else scan_policies uf req policies (False, ''no matching allow rule''))"

text \<open>\<open>CheckPII\<close>'s loops, with its early return of \<open>block\<close>.\<close>

fun scan_pii_rules ::
  "(string \<Rightarrow> string \<Rightarrow> bool) \<Rightarrow> string \<Rightarrow> PIIRule list \<Rightarrow> string \<Rightarrow> string + string"
where
  "scan_pii_rules uf ty [] action = Inr action"
| "scan_pii_rules uf ty (rule # rules) action =
     (if stringMatches uf (pr_TypesToRedact rule) ty
      then if pr_Action rule = ''block'' then Inl ''block''
           else if pr_Action rule = ''redact'' then scan_pii_rules uf ty rules ''redact''
           else scan_pii_rules uf ty rules action
      else scan_pii_rules uf ty rules action)"

fun scan_pii_policies ::
  "(string \<Rightarrow> string \<Rightarrow> bool) \<Rightarrow> string \<Rightarrow> Policy list \<Rightarrow> string \<Rightarrow> string"
where
  "scan_pii_policies uf ty [] action = action"
| "scan_pii_policies uf ty (p # ps) action =
     (case scan_pii_rules uf ty (c_PIIRules (p_Content p)) action of
        Inl result \<Rightarrow> result
      | Inr action' \<Rightarrow> scan_pii_policies uf ty ps action')"

section \<open>Where the policies come from\<close>

text \<open>\<open>cache\<close> is \<open>None\<close> when the evaluator has no cache. Errors of the cache are not returned.\<close>

definition getPolicies :: "'s PolicyCache option \<Rightarrow> 's PolicyStore \<Rightarrow> string \<Rightarrow> ('s, policy_slice) proc" where
  "getPolicies cache store agentDID s =
     (case (case cache of
              None \<Rightarrow> (Inr None, s)
            | Some c \<Rightarrow> pc_GetPolicies c agentDID s) of
        (Inr (Some cached), s1) \<Rightarrow> (Inr (Some cached), s1)
      | (_, s1) \<Rightarrow>
          (case ps_GetPolicies store agentDID s1 of
             (Inl e, s2) \<Rightarrow> (Inl (Wrap ''store get'' e), s2)
           | (Inr policies, s2) \<Rightarrow>
               (Inr policies,
                case cache of None \<Rightarrow> s2 | Some c \<Rightarrow> snd (pc_SetPolicies c agentDID policies s2))))"

text \<open>Both values are returned with an error: a refusal, and \<open>block\<close>.\<close>

definition Evaluate ::
  "(string \<Rightarrow> string \<Rightarrow> bool) \<Rightarrow> 's PolicyCache option \<Rightarrow> 's PolicyStore \<Rightarrow> Request \<Rightarrow>
     's \<Rightarrow> (Result \<times> error option) \<times> 's"
where
  "Evaluate uf cache store req s =
     (case getPolicies cache store (rq_AgentDID req) s of
        (Inl e, s') \<Rightarrow> ((\<lparr>rs_Allowed = False, rs_Reason = ''failed to retrieve policies''\<rparr>, Some e), s')
      | (Inr policies, s') \<Rightarrow> ((decide uf req (elems policies), None), s'))"

definition CheckPII ::
  "(string \<Rightarrow> string \<Rightarrow> bool) \<Rightarrow> 's PolicyCache option \<Rightarrow> 's PolicyStore \<Rightarrow> string \<Rightarrow> string \<Rightarrow>
     's \<Rightarrow> (string \<times> error option) \<times> 's"
where
  "CheckPII uf cache store agentDID piiType s =
     (case getPolicies cache store agentDID s of
        (Inl e, s') \<Rightarrow> ((''block'', Some e), s')
      | (Inr policies, s') \<Rightarrow> ((scan_pii_policies uf piiType (elems policies) ''allow'', None), s'))"

section \<open>What the loops compute\<close>

definition matches :: "(string \<Rightarrow> string \<Rightarrow> bool) \<Rightarrow> Request \<Rightarrow> MemoryRule \<Rightarrow> bool" where
  "matches uf req r \<longleftrightarrow>
     (mr_Action r = ''*'' \<or> EqualFold uf (mr_Action r) (rq_Action req)) \<and>
     (\<exists>t \<in> set (mr_TargetTypes r). t = ''*'' \<or> EqualFold uf t (rq_MemoryType req)) \<and>
     (\<exists>n \<in> set (mr_Namespaces r). n = ''*'' \<or> EqualFold uf n (rq_Namespace req))"

definition rule_says ::
  "(string \<Rightarrow> string \<Rightarrow> bool) \<Rightarrow> Request \<Rightarrow> string \<Rightarrow> Policy \<Rightarrow> bool" where
  "rule_says uf req effect p \<longleftrightarrow>
     (\<exists>r \<in> set (c_MemoryRules (p_Content p)). matches uf req r \<and> mr_Effect r = effect)"

definition pii_says :: "(string \<Rightarrow> string \<Rightarrow> bool) \<Rightarrow> string \<Rightarrow> string \<Rightarrow> Policy \<Rightarrow> bool" where
  "pii_says uf ty action p \<longleftrightarrow>
     (\<exists>r \<in> set (c_PIIRules (p_Content p)).
        (\<exists>t \<in> set (pr_TypesToRedact r). t = ''*'' \<or> EqualFold uf t ty) \<and> pr_Action r = action)"

lemma stringMatches_iff: "stringMatches uf vals item \<longleftrightarrow> (\<exists>v \<in> set vals. v = ''*'' \<or> EqualFold uf v item)"
  by (induction vals) auto

lemma scan_rules_Cons:
  "scan_rules uf req pid (r # rs) acc =
     (if \<not> matches uf req r then scan_rules uf req pid rs acc
      else if mr_Effect r = ''deny''
      then Inl \<lparr>rs_Allowed = False, rs_Reason = ''explicit deny by policy '' @ pid\<rparr>
      else if mr_Effect r = ''allow'' then scan_rules uf req pid rs (True, ''allowed by policy '' @ pid)
      else scan_rules uf req pid rs acc)"
  by (simp add: matches_def actionMatches_def stringMatches_iff)

declare scan_rules.simps(2) [simp del]

lemma scan_rules_result:
  "scan_rules uf req pid rs acc =
     (if \<exists>r \<in> set rs. matches uf req r \<and> mr_Effect r = ''deny''
      then Inl \<lparr>rs_Allowed = False, rs_Reason = ''explicit deny by policy '' @ pid\<rparr>
      else if \<exists>r \<in> set rs. matches uf req r \<and> mr_Effect r = ''allow''
      then Inr (True, ''allowed by policy '' @ pid)
      else Inr acc)"
  by (induction rs arbitrary: acc) (auto simp: scan_rules_Cons)

lemma scan_policies_Cons:
  "scan_policies uf req (p # ps) acc =
     (if rule_says uf req ''deny'' p
      then \<lparr>rs_Allowed = False, rs_Reason = ''explicit deny by policy '' @ p_ID p\<rparr>
      else scan_policies uf req ps
        (if rule_says uf req ''allow'' p then (True, ''allowed by policy '' @ p_ID p) else acc))"
  unfolding scan_policies.simps scan_rules_result rule_says_def
  by (cases "\<exists>r \<in> set (c_MemoryRules (p_Content p)). matches uf req r \<and> mr_Effect r = ''deny''";
      cases "\<exists>r \<in> set (c_MemoryRules (p_Content p)). matches uf req r \<and> mr_Effect r = ''allow''")
     (simp_all only: if_True if_False sum.case)

declare scan_policies.simps(2) [simp del]

lemma scan_policies_allowed:
  "rs_Allowed (scan_policies uf req ps acc) \<longleftrightarrow>
     (fst acc \<or> (\<exists>p \<in> set ps. rule_says uf req ''allow'' p)) \<and> \<not> (\<exists>p \<in> set ps. rule_says uf req ''deny'' p)"
  by (induction ps arbitrary: acc) (auto simp: scan_policies_Cons)

lemma scan_policies_deny_reason:
  "(\<exists>p \<in> set ps. rule_says uf req ''deny'' p) \<Longrightarrow>
     \<exists>p \<in> set ps. rule_says uf req ''deny'' p \<and>
       rs_Reason (scan_policies uf req ps acc) = ''explicit deny by policy '' @ p_ID p"
  by (induction ps arbitrary: acc) (auto simp: scan_policies_Cons)

lemma scan_policies_allow_reason:
  "\<not> (\<exists>p \<in> set ps. rule_says uf req ''deny'' p) \<Longrightarrow>
     rs_Reason (scan_policies uf req ps acc) =
       (case filter (rule_says uf req ''allow'') ps of
          [] \<Rightarrow> snd acc | qs \<Rightarrow> ''allowed by policy '' @ p_ID (last qs))"
  by (induction ps arbitrary: acc) (auto simp: scan_policies_Cons split: list.splits)

lemma decide_allowed:
  "rs_Allowed (decide uf req ps) \<longleftrightarrow>
     (\<exists>p \<in> set ps. rule_says uf req ''allow'' p) \<and> \<not> (\<exists>p \<in> set ps. rule_says uf req ''deny'' p)"
  by (auto simp: decide_def scan_policies_allowed)

lemma decide_deny_reason:
  "(\<exists>p \<in> set ps. rule_says uf req ''deny'' p) \<Longrightarrow>
     \<exists>p \<in> set ps. rule_says uf req ''deny'' p \<and>
       rs_Reason (decide uf req ps) = ''explicit deny by policy '' @ p_ID p"
  using scan_policies_deny_reason [of ps uf req] by (auto simp: decide_def)

lemma scan_pii_rules_result:
  "scan_pii_rules uf ty rs action =
     (if \<exists>r \<in> set rs. stringMatches uf (pr_TypesToRedact r) ty \<and> pr_Action r = ''block'' then Inl ''block''
      else if \<exists>r \<in> set rs. stringMatches uf (pr_TypesToRedact r) ty \<and> pr_Action r = ''redact'' then Inr ''redact''
      else Inr action)"
  by (induction rs arbitrary: action) auto

lemma scan_pii_policies_Cons:
  "scan_pii_policies uf ty (p # ps) action =
     (if pii_says uf ty ''block'' p then ''block''
      else scan_pii_policies uf ty ps (if pii_says uf ty ''redact'' p then ''redact'' else action))"
  unfolding scan_pii_policies.simps scan_pii_rules_result stringMatches_iff pii_says_def
  by (cases "\<exists>r \<in> set (c_PIIRules (p_Content p)).
        (\<exists>t \<in> set (pr_TypesToRedact r). t = ''*'' \<or> EqualFold uf t ty) \<and> pr_Action r = ''block''";
      cases "\<exists>r \<in> set (c_PIIRules (p_Content p)).
        (\<exists>t \<in> set (pr_TypesToRedact r). t = ''*'' \<or> EqualFold uf t ty) \<and> pr_Action r = ''redact''")
     (simp_all only: if_True if_False sum.case)

declare scan_pii_policies.simps(2) [simp del]

lemma scan_pii_policies_result:
  "scan_pii_policies uf ty ps action =
     (if \<exists>p \<in> set ps. pii_says uf ty ''block'' p then ''block''
      else if \<exists>p \<in> set ps. pii_says uf ty ''redact'' p then ''redact''
      else action)"
  by (induction ps arbitrary: action) (auto simp: scan_pii_policies_Cons)

section \<open>The evaluator over any store and any cache\<close>

text \<open>A store and a cache over one state, each of which leaves the other's data alone.\<close>

locale policy_backends =
  src: policy_store store policies + mem: policy_cache cache cached
  for store :: "'s PolicyStore" and policies :: "'s \<Rightarrow> string \<Rightarrow> Policy list"
    and cache :: "'s PolicyCache" and cached :: "'s \<Rightarrow> string \<Rightarrow> Policy list option" +
  assumes store_keeps_cached: "ps_GetPolicies store did s = (r, s') \<Longrightarrow> cached s' = cached s"
    and cache_get_keeps: "pc_GetPolicies cache did s = (r, s') \<Longrightarrow> policies s' = policies s"
    and cache_set_keeps: "pc_SetPolicies cache did x s = (q, s') \<Longrightarrow> policies s' = policies s"
begin

definition coherent :: "'s \<Rightarrow> bool" where
  "coherent s \<longleftrightarrow> (\<forall>did ps. cached s did = Some ps \<longrightarrow> ps = policies s did)"

lemma cached_cases:
  assumes "pc_GetPolicies cache did s = (r, s1)"
  obtains (hit) ps where "r = Inr (Some ps)" "cached s did = Some ps"
  | (miss) "\<And>ps. r \<noteq> Inr (Some ps)"
proof (cases "\<exists>ps. r = Inr (Some ps)")
  case True
  then obtain ps where "r = Inr (Some ps)" ..
  then show thesis using mem.get_cached [of did s "Some ps" s1, symmetric] assms hit by simp
next
  case False
  then show thesis using miss by blast
qed

lemma getPolicies_hit:
  "getPolicies (Some cache) store did s = (q, s') \<Longrightarrow> pc_GetPolicies cache did s = (Inr (Some ps), s1) \<Longrightarrow>
     q = Inr (Some ps) \<and> s' = s1"
  by (simp add: getPolicies_def)

lemma getPolicies_miss:
  assumes run: "getPolicies (Some cache) store did s = (q, s')"
    and get: "pc_GetPolicies cache did s = (r, s1)" and miss: "\<And>ps. r \<noteq> Inr (Some ps)"
  obtains (refused) e where "q = Inl e" "policies s' = policies s" "cached s' = cached s"
  | (read) x where "q = Inr x" "elems x = policies s did" "policies s' = policies s"
      "\<And>d. d \<noteq> did \<Longrightarrow> cached s' d = cached s d" "cached s' did = x \<or> cached s' did = cached s did"
proof -
  note get_keeps = cache_get_keeps [OF get] mem.get_cached_reads [OF get]
  obtain y s2 where y: "ps_GetPolicies store did s1 = (y, s2)" by fastforce
  note store_keeps = src.get_policies_reads [OF y] store_keeps_cached [OF y]
  have split: "getPolicies (Some cache) store did s =
      (case y of Inl e \<Rightarrow> (Inl (Wrap ''store get'' e), s2)
       | Inr x \<Rightarrow> (Inr x, snd (pc_SetPolicies cache did x s2)))"
    using get miss y by (auto simp: getPolicies_def split: sum.splits option.splits)
  show thesis
  proof (cases y)
    case (Inl e)
    then show thesis using run split get_keeps store_keeps by (intro refused) auto
  next
    case (Inr x)
    have "q = Inr x" and "s' = snd (pc_SetPolicies cache did x s2)" using run split Inr by simp_all
    then obtain z where z: "pc_SetPolicies cache did x s2 = (z, s')" by (metis prod.collapse)
    have "elems x = policies s did"
      using src.get_policies [of did s1 x s2] y Inr get_keeps by simp
    then show thesis
      using \<open>q = Inr x\<close> get_keeps store_keeps cache_set_keeps [OF z] mem.set_cached [OF z]
        mem.set_cached_other [OF z]
      by (intro read [of x]) auto
  qed
qed

lemma getPolicies_coherent:
  assumes run: "getPolicies (Some cache) store did s = (q, s')" and ok: "coherent s"
  shows "coherent s' \<and> policies s' = policies s \<and> (\<forall>x. q = Inr x \<longrightarrow> elems x = policies s did)"
proof -
  obtain r s1 where get: "pc_GetPolicies cache did s = (r, s1)" by fastforce
  from get show ?thesis
  proof (cases rule: cached_cases)
    case (hit ps)
    then have "q = Inr (Some ps) \<and> s' = s1" using getPolicies_hit [OF run] get by simp
    then show ?thesis
      using ok hit cache_get_keeps [OF get] mem.get_cached_reads [OF get] by (auto simp: coherent_def)
  next
    case miss
    from run get miss show ?thesis
    proof (cases rule: getPolicies_miss)
      case refused
      then show ?thesis using ok by (simp add: coherent_def)
    next
      case (read x')
      then have "coherent s'"
        using ok unfolding coherent_def by (metis elems_simps(2))
      then show ?thesis using read by simp
    qed
  qed
qed

lemma Evaluate_coherent:
  assumes "Evaluate uf (Some cache) store req s = ((res, err), s')" and "coherent s"
  shows "coherent s' \<and> policies s' = policies s \<and>
    (case err of None \<Rightarrow> res = decide uf req (policies s (rq_AgentDID req)) | Some e \<Rightarrow> \<not> rs_Allowed res)"
proof -
  obtain q where q: "getPolicies (Some cache) store (rq_AgentDID req) s = (q, s')"
    using assms(1) by (auto simp: Evaluate_def split: prod.splits sum.splits)
  from getPolicies_coherent [OF this assms(2)] assms(1) q show ?thesis
    by (cases q) (auto simp: Evaluate_def)
qed

lemma Evaluate_cached:
  assumes run: "Evaluate uf (Some cache) store req s = ((res, err), s')"
    and get: "pc_GetPolicies cache (rq_AgentDID req) s = (Inr (Some ps), s1)"
  shows "err = None \<and> res = decide uf req ps \<and> cached s (rq_AgentDID req) = Some ps"
  using run get mem.get_cached [OF get, symmetric] by (simp add: Evaluate_def getPolicies_def)

end

section \<open>The evaluator over PostgreSQL and Valkey\<close>

text \<open>
  The service's evaluator: the state is the database connection and the state of the Valkey
  client.
\<close>

abbreviation service_store :: "time \<Rightarrow> (conn \<times> 'k) PolicyStore" where
  "service_store now \<equiv> lift_store fst on_conn (PolicyPostgres now)"

abbreviation service_cache :: "'k kv_commands \<Rightarrow> (conn \<times> 'k) PolicyCache" where
  "service_cache client \<equiv> lift_cache snd on_kv (ValkeyCache client)"

lemma service_backends:
  assumes "kv_client client entry"
  shows "policy_backends (service_store now) (\<lambda>w did. policies_of did (c_db (fst w)))
           (service_cache client) (\<lambda>w. cached_policies entry (snd w))"
proof -
  have st: "policy_store (service_store now) (\<lambda>w did. policies_of did (c_db (fst w)))"
    by (rule policy_store_lift [OF postgres.policy_store_axioms]) simp
  have ca: "policy_cache (service_cache client) (\<lambda>w. cached_policies entry (snd w))"
    by (rule policy_cache_lift [OF policy_cache_ValkeyCache [OF assms]]) simp
  show ?thesis
    by (intro policy_backends.intro st ca, unfold_locales) (auto elim!: liftE)
qed

interpretation service: policy_backends
  "service_store now" "\<lambda>w did. policies_of did (c_db (fst w))"
  "service_cache (reference_server glob)" "\<lambda>w. cached_policies server_entry (snd w)" for now glob
  by (rule service_backends [OF reference.kv_client_axioms])

definition cache_fresh :: "('k \<Rightarrow> string \<Rightarrow> kvalue option) \<Rightarrow> conn \<times> 'k \<Rightarrow> bool" where
  "cache_fresh entry w \<longleftrightarrow>
     (\<forall>did ps. cached_policies entry (snd w) did = Some ps \<longrightarrow> ps = policies_of did (c_db (fst w)))"

lemma service_Evaluate:
  assumes kv: "kv_client client entry" and fresh: "cache_fresh entry w"
    and run: "Evaluate uf (Some (service_cache client)) (service_store now) req w = ((res, err), w')"
  shows "cache_fresh entry w' \<and>
    (case err of None \<Rightarrow> res = decide uf req (policies_of (rq_AgentDID req) (c_db (fst w))) | Some e \<Rightarrow> \<not> rs_Allowed res)"
proof -
  note backends = service_backends [OF kv, of now]
  have "policy_backends.coherent (\<lambda>w did. policies_of did (c_db (fst w)))
      (\<lambda>w. cached_policies entry (snd w)) v = cache_fresh entry v" for v
    by (simp add: policy_backends.coherent_def [OF backends] cache_fresh_def)
  then show ?thesis
    using policy_backends.Evaluate_coherent [OF backends run] fresh by simp
qed

lemma service_Evaluate_reads:
  assumes "Evaluate uf (Some (service_cache client)) (service_store now) req w = (r, w')"
  shows "c_db (fst w') = c_db (fst w)"
proof -
  obtain x w1 where 1: "pc_GetPolicies (service_cache client) (rq_AgentDID req) w = (x, w1)" by (rule prod.exhaust)
  obtain y w2 where 2: "ps_GetPolicies (service_store now) (rq_AgentDID req) w1 = (y, w2)" by (rule prod.exhaust)
  have "fst w1 = fst w" using 1 by (auto elim!: liftE)
  then have reads: "fst w1 = fst w" "c_db (fst w2) = c_db (fst w)"
    using 2 by (auto simp: PolicyPostgres_def GetPolicies_def attempt_def ret_def select_def dest!: db_stmt_cases
        elim!: liftE split: prod.splits sum.splits)
  have frame: "fst (snd (lift snd on_kv m v)) = fst v" for m and v :: "'a world"
    by (simp add: lift_def split: prod.splits)
  show ?thesis
    using assms 1 2 reads by (auto simp: Evaluate_def getPolicies_def frame split: sum.splits option.splits)
qed


definition sample_server :: "(string \<times> kvalue) list \<Rightarrow> server" where
  "sample_server es = \<lparr>k_strings = map (\<lambda>(k, v). (k, v, 1000000)) es, k_zsets = [], k_now = 0, k_outcomes = []\<rparr>"

definition sample_rule :: "string \<Rightarrow> string \<Rightarrow> MemoryRule" where
  "sample_rule action effect =
     \<lparr>mr_Action = action, mr_TargetTypes = [''*''], mr_Namespaces = [''shared''], mr_Effect = effect\<rparr>"

definition sample_request :: Request where
  "sample_request = \<lparr>rq_AgentDID = ''did:a'', rq_Action = ''Read'', rq_MemoryType = ''semantic'', rq_Namespace = ''shared''\<rparr>"

definition sample_world :: "(string \<times> kvalue) list \<Rightarrow> Policy list \<Rightarrow> conn \<times> server" where
  "sample_world es ps = (sample_conn (sample_db_policies ps), sample_server es)"

lemmas sample_policy_defs = sample_world_def sample_server_def sample_rule_def sample_request_def
  sample_policy_def sample_db_policies_def

lemma sample_world_evaluate:
  "Evaluate uf (Some (service_cache (reference_server glob))) (service_store now) sample_request
     (sample_world [] ps) =
     ((decide uf sample_request (policies_of ''did:a'' (sample_db_policies ps)), None),
      (sample_conn (sample_db_policies ps),
       sample_server [(cache_key ''did:a'', VPolicies (slice_of (policies_of ''did:a'' (sample_db_policies ps))))]
         \<lparr>k_strings := [(cache_key ''did:a'', VPolicies (slice_of (policies_of ''did:a'' (sample_db_policies ps))), 300000000)]\<rparr>))"
  by (simp add: Evaluate_def getPolicies_def sample_world_def sample_request_def lift_def ValkeyCache_def
      GetPolicies_cached_def SetPolicies_def PolicyPostgres_def reference_server_def server_call_def
      sample_server_def server_entry_def attempt_def ret_def server_set_def cache_ttl_def on_kv_def on_conn_def)


text \<open>
  C31: saving a policy does not reach decisions already cached. \<open>SavePolicy\<close> does not touch the
  cache: whatever it wrote, as long as the cache still answers with the policies \<open>old\<close> that it
  held before, \<open>Evaluate\<close> decides by \<open>old\<close>, with no error. (The entry lives five minutes; only
  \<open>Invalidate\<close>, which no handler calls, would end it earlier.)
\<close>

theorem Evaluate_after_SavePolicy:
  assumes kv: "kv_client client entry"
    and saved: "ps_SavePolicy (service_store now) p w = (Inr (), w1)"
    and answers: "GetPolicies_cached client (rq_AgentDID req) (snd w) = (Inr (Some old), k)"
  shows "\<exists>w2. Evaluate uf (Some (service_cache client)) (service_store now) req w1 = ((decide uf req old, None), w2) \<and>
    cached_policies entry (snd w) (rq_AgentDID req) = Some old"
proof -
  have same: "snd w1 = snd w" using saved by (auto elim!: liftE)
  have "pc_GetPolicies (service_cache client) (rq_AgentDID req) w1 = (Inr (Some old), on_kv k w1)"
    using answers same by (simp add: lift_def ValkeyCache_def)
  moreover obtain res err w2 where run:
    "Evaluate uf (Some (service_cache client)) (service_store now) req w1 = ((res, err), w2)"
    by (metis prod.collapse)
  ultimately show ?thesis
    using policy_backends.Evaluate_cached [OF service_backends [OF kv, of now], of uf req w1 res err w2] same
    by auto
qed

theorem Evaluate_after_SavePolicy_witness:
  "\<exists>w1 w2. ps_SavePolicy (service_store 5) (sample_policy ''p1'' ''did:a'' [sample_rule ''*'' ''deny''])
      (sample_world [(cache_key ''did:a'', VPolicies (Some [sample_policy ''p1'' ''did:a'' [sample_rule ''*'' ''allow'']]))]
         [sample_policy ''p1'' ''did:a'' [sample_rule ''*'' ''allow'']]) = (Inr (), w1) \<and>
     map p_Content (t_policies (c_db (fst w1))) = [p_Content (sample_policy ''p1'' ''did:a'' [sample_rule ''*'' ''deny''])] \<and>
     Evaluate (\<lambda>_ _. False) (Some (service_cache (reference_server (\<lambda>_ _. True)))) (service_store 5) sample_request w1 =
       ((\<lparr>rs_Allowed = True, rs_Reason = ''allowed by policy p1''\<rparr>, None), w2)"
proof -
  let ?old = "[sample_policy ''p1'' ''did:a'' [sample_rule ''*'' ''allow'']]"
  let ?new = "sample_policy ''p1'' ''did:a'' [sample_rule ''*'' ''deny'']"
  let ?w = "sample_world [(cache_key ''did:a'', VPolicies (Some ?old))] ?old"
  obtain w1 where saved: "ps_SavePolicy (service_store 5) ?new ?w = (Inr (), w1)"
    and new: "map p_Content (t_policies (c_db (fst w1))) = [p_Content ?new]"
    by (simp add: lift_def PolicyPostgres_def SavePolicy_def sample_policy_defs upsert_policy_def on_conn_def)
  have answers: "GetPolicies_cached (reference_server (\<lambda>_ _. True)) (rq_AgentDID sample_request) (snd ?w) =
      (Inr (Some ?old), snd ?w)"
    by (simp add: GetPolicies_cached_def reference_server_def server_call_def server_entry_def
        attempt_def ret_def sample_policy_defs)
  have "decide (\<lambda>_ _. False) sample_request ?old = \<lparr>rs_Allowed = True, rs_Reason = ''allowed by policy p1''\<rparr>"
    by (simp add: decide_def scan_policies_Cons rule_says_def matches_def sample_policy_defs ascii_def ascii_lower_def)
  with Evaluate_after_SavePolicy [OF reference.kv_client_axioms saved answers] saved new show ?thesis by metis
qed

definition rules_of :: "Policy list \<Rightarrow> MemoryRule set" where
  "rules_of ps = (\<Union>p \<in> set ps. set (c_MemoryRules (p_Content p)))"

lemma rule_says_rules_of:
  "(\<exists>p \<in> set ps. rule_says uf req eff p) \<longleftrightarrow> (\<exists>r \<in> rules_of ps. matches uf req r \<and> mr_Effect r = eff)"
  by (auto simp: rule_says_def rules_of_def)

text \<open>
  C32: the order of policies and rules does not matter, and refusals only grow with denials.
  Two sets of policies with the same rules decide alike, whatever their order, grouping or
  repetition; and adding rules of which none says \<open>allow\<close> never allows what was refused.
\<close>

theorem decide_by_rule_set:
  assumes "rules_of ps \<subseteq> rules_of qs" and "\<forall>r \<in> rules_of qs - rules_of ps. mr_Effect r \<noteq> ''allow''"
  shows "(rs_Allowed (decide uf req qs) \<longrightarrow> rs_Allowed (decide uf req ps)) \<and>
    (rules_of ps = rules_of qs \<longrightarrow> rs_Allowed (decide uf req ps) = rs_Allowed (decide uf req qs))"
  using assms unfolding decide_allowed rule_says_rules_of by blast

theorem decide_by_rule_set_witness:
  "rs_Allowed (decide (\<lambda>_ _. False) sample_request [sample_policy ''p1'' ''did:a'' [sample_rule ''*'' ''allow'']])"
  using decide_by_rule_set [of "[sample_policy ''p1'' ''did:a'' [sample_rule ''*'' ''allow'']]"
      "[sample_policy ''p2'' ''did:a'' [], sample_policy ''p3'' ''did:a'' [sample_rule ''*'' ''allow'']]" "\<lambda>_ _. False" sample_request]
  by (simp add: rules_of_def decide_def scan_policies_Cons rule_says_def matches_def sample_policy_defs
      ascii_def ascii_lower_def)

text \<open>
  The treatment of personal data. Whatever the cache and the store answer: if the policies
  cannot be read, \<open>CheckPII\<close> says \<open>block\<close>; otherwise it says \<open>block\<close> when some rule for the type
  of data does, else \<open>redact\<close> when some rule does, else \<open>allow\<close>.
\<close>

lemma CheckPII_priority:
  "CheckPII uf cache store did ty s =
     (case getPolicies cache store did s of
        (Inl e, s') \<Rightarrow> ((''block'', Some e), s')
      | (Inr x, s') \<Rightarrow>
          ((if \<exists>p \<in> set (elems x). pii_says uf ty ''block'' p then ''block''
            else if \<exists>p \<in> set (elems x). pii_says uf ty ''redact'' p then ''redact''
            else ''allow'', None), s'))"
  by (simp add: CheckPII_def scan_pii_policies_result split: sum.splits prod.splits)

end
