(* ===== verification/Audit_Logger.thy ===== *)
theory Audit_Logger
  imports Database "HOL-Library.Multiset"
begin

text \<open>
  \<open>internal/audit/logger.go\<close>: audit events are written by one goroutine each and read back with
  filters. A logger is the events whose goroutine has not finished and the contents of the
  error channel; how the goroutines are scheduled is not determined, so the logger's runs are
  a step relation. The clock and the identifiers of the database are arguments.
\<close>

section \<open>The table\<close>

text \<open>
  \<open>INSERT INTO audit_log\<close>: the row goes to the partition of its month, of which the migrations
  create two, May and June 2026 (in UTC); without one the row is refused (23514). 23505 is the
  primary key. Nil metadata are written as the empty object.
\<close>

definition partitions :: "(time \<times> time) list" where
  "partitions = [(1777593600000000, 1780272000000000), (1780272000000000, 1782864000000000)]"

definition has_partition :: "time \<Rightarrow> bool" where
  "has_partition ts \<longleftrightarrow> (\<exists>(a, b) \<in> set partitions. a \<le> ts \<and> ts < b)"

definition recorded :: "Event \<Rightarrow> Event" where
  "recorded e = e\<lparr>ev_ID := [], ev_Timestamp := 0,
     ev_Metadata := Some (case ev_Metadata e of None \<Rightarrow> [] | Some m \<Rightarrow> m)\<rparr>"

definition insert_audit :: "uuid \<Rightarrow> time \<Rightarrow> Event \<Rightarrow> unit sql" where
  "insert_audit i ts e d =
     (if \<not> has_partition ts then Inl (PgError ''23514'')
      else if (i, ts) \<in> (\<lambda>r. (ev_ID r, ev_Timestamp r)) ` set (t_audit_log d) then Inl (PgError ''23505'')
      else Inr ((), d\<lparr>t_audit_log := t_audit_log d @ [(recorded e)\<lparr>ev_ID := i, ev_Timestamp := ts\<rparr>]\<rparr>))"

section \<open>Logging\<close>

record Logger =
  lg_pending :: "Event list"
  lg_errChan :: "error list"

definition NewLogger :: Logger where
  "NewLogger = \<lparr>lg_pending = [], lg_errChan = []\<rparr>"

definition errChan_cap :: nat where
  "errChan_cap = 100"

text \<open>\<open>Log\<close> starts a goroutine and returns; \<open>log_body\<close> is what the goroutine does.\<close>

definition Log :: "Event \<Rightarrow> Logger \<Rightarrow> Logger" where
  "Log event l = l\<lparr>lg_pending := lg_pending l @ [event]\<rparr>"

definition send_error :: "error \<Rightarrow> Logger \<Rightarrow> Logger" where
  "send_error err l =
     (if length (lg_errChan l) < errChan_cap then l\<lparr>lg_errChan := lg_errChan l @ [err]\<rparr> else l)"

definition log_body :: "uuid \<Rightarrow> time \<Rightarrow> Event \<Rightarrow> conn \<times> Logger \<Rightarrow> conn \<times> Logger" where
  "log_body i ts event s =
     (case db_stmt (insert_audit i ts event) (fst s) of
        (Inr _, c) \<Rightarrow> (c, snd s)
      | (Inl err, c) \<Rightarrow> (c, send_error (Wrap ''failed to insert audit log'' err) (snd s)))"

text \<open>
  The steps: a call of \<open>Log\<close>, the goroutine of some pending event (the identifier and the time
  are the database's), and a reader of \<open>Errors()\<close>.
\<close>

datatype log_act = Call Event | Finish Event uuid time | Receive error

inductive log_step :: "conn \<times> Logger \<Rightarrow> log_act \<Rightarrow> conn \<times> Logger \<Rightarrow> bool" where
  call: "log_step (c, l) (Call e) (c, Log e l)"
| finish: "e \<in> set (lg_pending l) \<Longrightarrow>
    log_step (c, l) (Finish e i ts) (log_body i ts e (c, l\<lparr>lg_pending := remove1 e (lg_pending l)\<rparr>))"
| receive: "lg_errChan l = err # errs \<Longrightarrow> log_step (c, l) (Receive err) (c, l\<lparr>lg_errChan := errs\<rparr>)"

inductive_cases log_step_callE: "log_step s (Call e) s'"
inductive_cases log_step_finishE: "log_step s (Finish e i ts) s'"
inductive_cases log_step_receiveE: "log_step s (Receive err) s'"

inductive log_run :: "conn \<times> Logger \<Rightarrow> log_act list \<Rightarrow> conn \<times> Logger \<Rightarrow> bool" where
  nil: "log_run s [] s"
| cons: "log_step s a s' \<Longrightarrow> log_run s' as s'' \<Longrightarrow> log_run s (a # as) s''"

inductive_simps log_run_nil_iff: "log_run s [] s'"
inductive_simps log_run_cons_iff: "log_run s (a # as) s'"

text \<open>The events logged in a run.\<close>

fun logged :: "log_act list \<Rightarrow> Event list" where
  "logged [] = []"
| "logged (Call e # as) = e # logged as"
| "logged (a # as) = logged as"

section \<open>Querying\<close>

record AuditFilter =
  af_AgentDID :: "string option"
  af_Action :: "string option"
  af_Allowed :: "bool option"
  af_From :: "time option"
  af_To :: "time option"
  af_Limit :: int
  af_Offset :: int

definition audit_matches :: "AuditFilter \<Rightarrow> Event \<Rightarrow> bool" where
  "audit_matches f e \<longleftrightarrow>
     (case af_AgentDID f of None \<Rightarrow> True | Some x \<Rightarrow> ev_AgentDID e = x) \<and>
     (case af_Action f of None \<Rightarrow> True | Some x \<Rightarrow> ev_Action e = x) \<and>
     (case af_Allowed f of None \<Rightarrow> True | Some x \<Rightarrow> ev_Allowed e = x) \<and>
     (case af_From f of None \<Rightarrow> True | Some t \<Rightarrow> t \<le> ev_Timestamp e) \<and>
     (case af_To f of None \<Rightarrow> True | Some t \<Rightarrow> ev_Timestamp e \<le> t)"

definition select_audit :: "AuditFilter \<Rightarrow> db \<Rightarrow> Event list" where
  "select_audit f d =
     (let rows = sort_key (\<lambda>e. - ev_Timestamp e) (filter (audit_matches f) (t_audit_log d));
          rows = (if 0 < af_Offset f then drop (nat (af_Offset f)) rows else rows)
      in if 0 < af_Limit f then take (nat (af_Limit f)) rows else rows)"

definition Query :: "AuditFilter \<Rightarrow> (conn, Event list \<times> int) proc" where
  "Query f =
     attempt (db_stmt (select (\<lambda>d. int (count_where (audit_matches f) (t_audit_log d)))))
       (Wrap ''failed to count audit logs'') (\<lambda>total.
     attempt (db_stmt (select (select_audit f))) (Wrap ''failed to query audit logs'') (\<lambda>events.
       ret (events, total)))"

section \<open>What the steps do\<close>

lemma recorded_idem [simp]: "recorded (recorded e) = recorded e"
  by (simp add: recorded_def split: option.splits)

lemma recorded_row [simp]: "recorded (r\<lparr>ev_ID := i, ev_Timestamp := ts\<rparr>) = recorded r"
  by (simp add: recorded_def)

lemma insert_audit_row:
  "insert_audit i ts e d = Inr (u, d') \<Longrightarrow>
     has_partition ts \<and> d' = d\<lparr>t_audit_log := t_audit_log d @ [(recorded e)\<lparr>ev_ID := i, ev_Timestamp := ts\<rparr>]\<rparr>"
  by (auto simp: insert_audit_def split: if_splits)

lemma send_error_fields [simp]:
  "lg_pending (send_error err l) = lg_pending l"
  "length (lg_errChan (send_error err l)) = min (max (length (lg_errChan l)) errChan_cap) (Suc (length (lg_errChan l)))"
  by (auto simp: send_error_def)

lemma log_body_cases:
  obtains (failed) err c l' where "log_body i ts e (c0, l) = (c, send_error err l)" "c_db c = c_db c0 \<or>
      (\<exists>d. insert_audit i ts e (c_db c0) = Inr ((), d) \<and> c_db c = d)"
  | (stored) c where "log_body i ts e (c0, l) = (c, l)" "insert_audit i ts e (c_db c0) = Inr ((), c_db c)"
proof (cases "db_stmt (insert_audit i ts e) c0")
  case (Pair r c)
  show thesis
  proof (cases r)
    case (Inl err)
    then show thesis
      using Pair db_stmt_cases [OF Pair] by (intro failed [of c]) (auto simp: log_body_def)
  next
    case (Inr u)
    then show thesis
      using Pair db_stmt_InrD [of "insert_audit i ts e" c0 u c] by (intro stored [of c]) (auto simp: log_body_def)
  qed
qed

text \<open>The goroutines that ran, by the identifiers and times they got.\<close>

fun finishes :: "log_act list \<Rightarrow> (uuid \<times> time) list" where
  "finishes [] = []"
| "finishes (Finish e i ts # as) = (i, ts) # finishes as"
| "finishes (a # as) = finishes as"

definition stored_by :: "log_act list \<Rightarrow> Event \<Rightarrow> bool" where
  "stored_by as r \<longleftrightarrow> (ev_ID r, ev_Timestamp r) \<in> set (finishes as) \<and> has_partition (ev_Timestamp r)"

text \<open>One step: at most one row is appended, for an event that leaves the pending ones.\<close>

definition accounted :: "conn \<times> Logger \<Rightarrow> log_act list \<Rightarrow> conn \<times> Logger \<Rightarrow> bool" where
  "accounted s as s' \<longleftrightarrow>
     (\<exists>new. c_db (fst s') = (c_db (fst s))\<lparr>t_audit_log := t_audit_log (c_db (fst s)) @ new\<rparr> \<and>
        (\<forall>r \<in> set new. stored_by as r) \<and>
        mset (map recorded new) + mset (map recorded (lg_pending (snd s'))) \<subseteq>#
          mset (map recorded (lg_pending (snd s))) + mset (map recorded (logged as))) \<and>
     length (lg_errChan (snd s')) \<le> max (length (lg_errChan (snd s))) errChan_cap"

lemma accountedI:
  assumes "c_db (fst s') = (c_db (fst s))\<lparr>t_audit_log := t_audit_log (c_db (fst s)) @ new\<rparr>"
    and "\<And>r. r \<in> set new \<Longrightarrow> stored_by as r"
    and "mset (map recorded new) + mset (map recorded (lg_pending (snd s'))) \<subseteq>#
          mset (map recorded (lg_pending (snd s))) + mset (map recorded (logged as))"
    and "length (lg_errChan (snd s')) \<le> max (length (lg_errChan (snd s))) errChan_cap"
  shows "accounted s as s'"
  using assms unfolding accounted_def by blast

lemma mset_remove1_recorded:
  "e \<in> set es \<Longrightarrow> add_mset (recorded e) (mset (map recorded (remove1 e es))) = mset (map recorded es)"
  by (induction es) auto

lemma log_step_accounted: "log_step s a s' \<Longrightarrow> accounted s [a] s'"
proof (induction rule: log_step.induct)
  case (call c l e)
  show ?case by (rule accountedI [of _ _ "[]"]) (simp_all add: Log_def)
next
  case (finish e l c i ts)
  let ?l = "l\<lparr>lg_pending := remove1 e (lg_pending l)\<rparr>"
  note eq = mset_remove1_recorded [OF finish]
  have stored: "accounted (c, l) [Finish e i ts] (c', l')"
    if "insert_audit i ts e (c_db c) = Inr ((), c_db c')" "lg_pending l' = lg_pending ?l"
      "length (lg_errChan l') \<le> max (length (lg_errChan l)) errChan_cap" for c' l'
    using insert_audit_row [OF that(1)] that(2,3) eq
    by (intro accountedI [of _ _ "[(recorded e)\<lparr>ev_ID := i, ev_Timestamp := ts\<rparr>]"]) (simp_all add: stored_by_def)
  have kept: "accounted (c, l) [Finish e i ts] (c', l')"
    if "c_db c' = c_db c" "lg_pending l' = lg_pending ?l"
      "length (lg_errChan l') \<le> max (length (lg_errChan l)) errChan_cap" for c' l'
    using that by (intro accountedI [of _ _ "[]"]) (simp_all add: image_mset_subseteq_mono)
  have either: "accounted (c, l) [Finish e i ts] (c', l')"
    if "c_db c' = c_db c \<or> insert_audit i ts e (c_db c) = Inr ((), c_db c')" "lg_pending l' = lg_pending ?l"
      "length (lg_errChan l') \<le> max (length (lg_errChan l)) errChan_cap" for c' l'
    using that stored kept by blast
  show ?case
    by (rule log_body_cases [of i ts e c ?l]) (auto intro!: either)
next
  case (receive l err errs c)
  show ?case by (rule accountedI [of _ _ "[]"]) (simp_all add: receive)
qed

lemma logged_append: "logged (as @ bs) = logged as @ logged bs"
  by (induction as rule: logged.induct) auto

lemma finishes_append: "finishes (as @ bs) = finishes as @ finishes bs"
  by (induction as rule: finishes.induct) auto

lemma accounted_trans:
  assumes "accounted s as s1" and "accounted s1 bs s2"
  shows "accounted s (as @ bs) s2"
proof -
  let ?R = "\<lambda>es. mset (map recorded es)"
  obtain new where new: "c_db (fst s1) = (c_db (fst s))\<lparr>t_audit_log := t_audit_log (c_db (fst s)) @ new\<rparr>"
      "\<forall>r \<in> set new. stored_by as r"
      "?R new + ?R (lg_pending (snd s1)) \<subseteq># ?R (lg_pending (snd s)) + ?R (logged as)"
    and e1: "length (lg_errChan (snd s1)) \<le> max (length (lg_errChan (snd s))) errChan_cap"
    using assms(1) unfolding accounted_def by blast
  obtain new' where new': "c_db (fst s2) = (c_db (fst s1))\<lparr>t_audit_log := t_audit_log (c_db (fst s1)) @ new'\<rparr>"
      "\<forall>r \<in> set new'. stored_by bs r"
      "?R new' + ?R (lg_pending (snd s2)) \<subseteq># ?R (lg_pending (snd s1)) + ?R (logged bs)"
    and e2: "length (lg_errChan (snd s2)) \<le> max (length (lg_errChan (snd s1))) errChan_cap"
    using assms(2) unfolding accounted_def by blast
  have "?R new + (?R new' + ?R (lg_pending (snd s2))) \<subseteq># ?R new + (?R (lg_pending (snd s1)) + ?R (logged bs))"
    using new'(3) by (rule subset_mset.add_left_mono)
  also have "\<dots> \<subseteq># ?R (lg_pending (snd s)) + ?R (logged as) + ?R (logged bs)"
    using subset_mset.add_right_mono [OF new(3), of "?R (logged bs)"] by (simp add: add.assoc)
  finally show ?thesis
    using new new' e1 e2
    by (intro accountedI [of _ _ "new @ new'"])
       (auto simp: add.assoc logged_append stored_by_def finishes_append)
qed

lemma log_run_accounted: "log_run s as s' \<Longrightarrow> accounted s as s'"
proof (induction rule: log_run.induct)
  case (nil s)
  show ?case by (rule accountedI [of _ _ "[]"]) simp_all
next
  case (cons s a s' as s'')
  then show ?case using accounted_trans [OF log_step_accounted [OF cons.hyps(1)] cons.IH] by simp
qed

section \<open>Complete runs\<close>

definition audit_keys :: "db \<Rightarrow> (uuid \<times> time) set" where
  "audit_keys d = (\<lambda>r. (ev_ID r, ev_Timestamp r)) ` set (t_audit_log d)"

lemma insert_audit_served:
  "has_partition ts \<Longrightarrow> (i, ts) \<notin> audit_keys d \<Longrightarrow> insert_audit i ts e d =
     Inr ((), d\<lparr>t_audit_log := t_audit_log d @ [(recorded e)\<lparr>ev_ID := i, ev_Timestamp := ts\<rparr>]\<rparr>)"
  by (simp add: insert_audit_def audit_keys_def)

lemma log_run_complete:
  assumes "log_run s as s'" and "calm (fst s)" and "distinct (finishes as)"
    and "set (finishes as) \<inter> audit_keys (c_db (fst s)) = {}" and "\<forall>(i, ts) \<in> set (finishes as). has_partition ts"
  shows "calm (fst s') \<and> set (lg_errChan (snd s')) \<subseteq> set (lg_errChan (snd s)) \<and>
    (\<exists>new. t_audit_log (c_db (fst s')) = t_audit_log (c_db (fst s)) @ new \<and>
      mset (map recorded new) + mset (map recorded (lg_pending (snd s'))) =
        mset (map recorded (lg_pending (snd s))) + mset (map recorded (logged as)))"
  using assms
proof (induction rule: log_run.induct)
  case (cons s a s' as s'')
  note IH = cons.IH
  show ?case
  proof (cases a)
    case (Call e)
    then have s': "fst s' = fst s" "snd s' = Log e (snd s)" using cons.hyps(1) by (auto elim: log_step_callE)
    then show ?thesis using IH cons.prems Call by (auto simp: Log_def)
  next
    case (Finish e i ts)
    let ?row = "(recorded e)\<lparr>ev_ID := i, ev_Timestamp := ts\<rparr>"
    obtain c l where s: "s = (c, l)" by fastforce
    have key: "has_partition ts" "(i, ts) \<notin> audit_keys (c_db c)" using cons.prems Finish s by auto
    have e: "e \<in> set (lg_pending l)"
      and s': "s' = log_body i ts e (c, l\<lparr>lg_pending := remove1 e (lg_pending l)\<rparr>)"
      using cons.hyps(1) Finish s by (auto elim: log_step_finishE)
    have s': "s' = (c\<lparr>c_db := (c_db c)\<lparr>t_audit_log := t_audit_log (c_db c) @ [?row]\<rparr>\<rparr>,
        l\<lparr>lg_pending := remove1 e (lg_pending l)\<rparr>)"
      using cons.prems(1) s by (simp add: s' log_body_def insert_audit_served [OF key])
    have keys: "audit_keys (c_db (fst s')) = insert (i, ts) (audit_keys (c_db c))"
      by (simp add: s' audit_keys_def)
    have "calm (fst s'')" "set (lg_errChan (snd s'')) \<subseteq> set (lg_errChan (snd s'))"
      and ex: "\<exists>new. t_audit_log (c_db (fst s'')) = t_audit_log (c_db (fst s')) @ new \<and>
        mset (map recorded new) + mset (map recorded (lg_pending (snd s''))) =
          mset (map recorded (lg_pending (snd s'))) + mset (map recorded (logged as))"
      using IH cons.prems keys Finish s by (auto simp: s')
    moreover from ex obtain new where "t_audit_log (c_db (fst s'')) = t_audit_log (c_db (fst s')) @ new"
      "mset (map recorded new) + mset (map recorded (lg_pending (snd s''))) =
          mset (map recorded (lg_pending (snd s'))) + mset (map recorded (logged as))" by blast
    ultimately show ?thesis
      using mset_remove1_recorded [OF e] Finish s
      by (intro conjI exI [of _ "?row # new"]) (simp_all add: s' flip: add_mset_add_single)
  next
    case (Receive err)
    then have s': "fst s' = fst s" "lg_pending (snd s') = lg_pending (snd s)"
      "set (lg_errChan (snd s')) \<subseteq> set (lg_errChan (snd s))"
      using cons.hyps(1) by (auto elim: log_step_receiveE)
    then show ?thesis using IH cons.prems Receive by auto
  qed
qed auto

lemma Query_calm:
  "calm c \<Longrightarrow> Query f c =
     (Inr (select_audit f (c_db c), int (count_where (audit_matches f) (t_audit_log (c_db c)))), c)"
  by (simp add: Query_def attempt_def select_def ret_def)

lemma drained_run:
  "length ks = length (lg_pending l) \<Longrightarrow>
     \<exists>as c' l'. log_run (c, l) as (c', l') \<and> finishes as = ks \<and> logged as = [] \<and> lg_pending l' = []"
proof (induction ks arbitrary: c l)
  case Nil
  then show ?case using log_run.nil [of "(c, l)"] by fastforce
next
  case (Cons k ks)
  obtain i ts where k: "k = (i, ts)" by fastforce
  obtain e es where l: "lg_pending l = e # es" using Cons.prems by (cases "lg_pending l") auto
  obtain c1 l1 where body: "log_body i ts e (c, l\<lparr>lg_pending := es\<rparr>) = (c1, l1)" and "lg_pending l1 = es"
    by (rule log_body_cases [of i ts e c "l\<lparr>lg_pending := es\<rparr>"]) auto
  then obtain as c' l' where as: "log_run (c1, l1) as (c', l')" "finishes as = ks" "logged as = []" "lg_pending l' = []"
    using Cons.IH [of l1 c1] Cons.prems l by auto
  have "log_step (c, l) (Finish e i ts) (c1, l1)"
    using log_step.finish [of e l c i ts] l body by simp
  then have "log_run (c, l) (Finish e i ts # as) (c', l')" using as(1) by (rule log_run.cons)
  then show ?case using as k by fastforce
qed

section \<open>Properties\<close>


definition sample_event :: Event where
  "sample_event = \<lparr>ev_ID = [], ev_Timestamp = 0, ev_AgentDID = ''did:a'', ev_Action = ''GET'', ev_Resource = ''/'',
     ev_Allowed = True, ev_PolicyID = [], ev_Reason = [], ev_Metadata = None\<rparr>"

definition sample_audit :: conn where
  "sample_audit = \<lparr>c_db = empty_db, c_outcomes = [], c_aborted = False\<rparr>"

definition sample_log_run :: "time \<Rightarrow> log_act list" where
  "sample_log_run ts = [Call sample_event, Finish sample_event ''i1'' ts]"

lemma sample_log_run_steps:
  "log_run (sample_audit, NewLogger) (sample_log_run ts) (log_body ''i1'' ts sample_event (sample_audit, NewLogger))"
proof -
  have "log_step (sample_audit, Log sample_event NewLogger) (Finish sample_event ''i1'' ts)
      (log_body ''i1'' ts sample_event (sample_audit, NewLogger))"
    using log_step.finish [of sample_event "Log sample_event NewLogger" sample_audit "''i1''" ts]
    by (simp add: Log_def NewLogger_def)
  then show ?thesis
    unfolding sample_log_run_def by (intro log_run.cons [OF log_step.call] log_run.cons [OF _ log_run.nil])
qed


definition all_events :: AuditFilter where
  "all_events = \<lparr>af_AgentDID = None, af_Action = None, af_Allowed = None, af_From = None, af_To = None,
     af_Limit = 0, af_Offset = 0\<rparr>"

lemma all_events_matches [simp]: "audit_matches all_events e"
  by (simp add: audit_matches_def all_events_def)

lemma select_all_events: "mset (select_audit all_events d) = mset (t_audit_log d)"
  by (simp add: select_audit_def all_events_def audit_matches_def)

lemma count_all_events: "count_where (audit_matches all_events) t = length t"
  by (simp add: count_where_def)

text \<open>
  C10: every event is recorded in the end. On a served connection, in a run from a new logger
  in which the database gives fresh identifiers and times within the partitions, once no event
  is pending no error was reported and \<open>Query\<close> returns, next to the events that were there,
  exactly the events that were logged, each as often as it was. And such an end can be reached:
  with as many fresh keys as there are pending events, the goroutines run to their end.
\<close>

theorem audit_complete:
  assumes run: "log_run (c, NewLogger) as (c', l)" and calm: "calm c"
    and keys: "distinct (finishes as)" "set (finishes as) \<inter> audit_keys (c_db c) = {}"
      "\<forall>(i, ts) \<in> set (finishes as). has_partition ts"
  shows "(lg_pending l = [] \<longrightarrow> lg_errChan l = [] \<and>
      (\<exists>events. Query all_events c' = (Inr (events, int (length (t_audit_log (c_db c)) + length (logged as))), c') \<and>
         mset (map recorded events) = mset (map recorded (t_audit_log (c_db c) @ logged as)))) \<and>
    (\<forall>ks. length ks = length (lg_pending l) \<longrightarrow>
      (\<exists>bs s. log_run (c', l) bs s \<and> finishes bs = ks \<and> logged bs = [] \<and> lg_pending (snd s) = []))"
proof (intro conjI impI allI)
  from log_run_complete [OF run] calm keys obtain new where
    c': "calm c'" and err: "lg_errChan l = []" and new: "t_audit_log (c_db c') = t_audit_log (c_db c) @ new"
    and m: "mset (map recorded new) + mset (map recorded (lg_pending l)) = mset (map recorded (logged as))"
    by (auto simp: NewLogger_def)
  { assume "lg_pending l = []"
    then have m: "mset (map recorded new) = mset (map recorded (logged as))" using m by simp
    then have "length new = length (logged as)" by (metis length_map size_mset)
    moreover have "mset (map recorded (select_audit all_events (c_db c'))) =
        mset (map recorded (t_audit_log (c_db c) @ logged as))"
      using m by (simp add: select_all_events new)
    ultimately show "\<exists>events. Query all_events c' =
        (Inr (events, int (length (t_audit_log (c_db c)) + length (logged as))), c') \<and>
        mset (map recorded events) = mset (map recorded (t_audit_log (c_db c) @ logged as))"
      using c' by (simp add: Query_calm count_all_events new) }
  show "lg_errChan l = []" by (rule err)
  show "\<exists>bs s. log_run (c', l) bs s \<and> finishes bs = ks \<and> logged bs = [] \<and> lg_pending (snd s) = []"
    if "length ks = length (lg_pending l)" for ks
    using drained_run [OF that, of c'] by fastforce
qed

theorem audit_complete_witness:
  "\<exists>events c'. log_run (sample_audit, NewLogger) (sample_log_run 1780272000000000) (c', NewLogger) \<and>
     Query all_events c' = (Inr (events, 1), c') \<and> mset (map recorded events) = {#recorded sample_event#}"
proof -
  obtain c l where body: "log_body ''i1'' 1780272000000000 sample_event (sample_audit, NewLogger) = (c, l)" by fastforce
  have part: "has_partition 1780272000000000" by (simp add: has_partition_def partitions_def)
  have db: "calm sample_audit" "t_audit_log (c_db sample_audit) = []"
    by (simp_all add: sample_audit_def empty_db_def calm_def)
  have l: "l = NewLogger"
    using body insert_audit_served [OF part] db by (simp add: log_body_def audit_keys_def)
  note run = sample_log_run_steps [of 1780272000000000, unfolded body l]
  have "lg_pending NewLogger = []" by (simp add: NewLogger_def)
  then obtain events where "Query all_events c = (Inr (events, 1), c)" "mset (map recorded events) = {#recorded sample_event#}"
    using audit_complete [OF run db(1)] part db by (auto simp: sample_log_run_def audit_keys_def)
  with run show ?thesis by (intro exI [of _ events] exI [of _ c] conjI)
qed

text \<open>
  The pages of the audit log. On a served connection, for a positive limit and an offset
  that is not negative, \<open>Query\<close> returns the part of one list from the offset on, at most as many
  events as the limit, and the length of the whole list: the events that match every filter
  that is set, newest first. It changes nothing.
\<close>

lemma Query_pages:
  assumes calm: "calm c" and "0 < l" and "0 \<le> off"
  shows "\<exists>all. mset all = mset (filter (audit_matches f) (t_audit_log (c_db c))) \<and>
    sorted_wrt (\<lambda>x y. ev_Timestamp y \<le> ev_Timestamp x) all \<and>
    Query (f\<lparr>af_Limit := l, af_Offset := off\<rparr>) c =
      (Inr (take (nat l) (drop (nat off) all), int (length all)), c)"
proof -
  let ?rows = "filter (audit_matches f) (t_audit_log (c_db c))"
  let ?all = "sort_key (\<lambda>e. - ev_Timestamp e) ?rows"
  have same: "audit_matches (f\<lparr>af_Limit := l, af_Offset := off\<rparr>) = audit_matches f"
    by (simp add: audit_matches_def fun_eq_iff)
  have "Query (f\<lparr>af_Limit := l, af_Offset := off\<rparr>) c =
      (Inr (take (nat l) (drop (nat off) ?all), int (length ?all)), c)"
    using assms by (simp add: Query_calm [OF calm] same select_audit_def count_where_def Let_def)
  moreover have "sorted_wrt (\<lambda>x y. ev_Timestamp y \<le> ev_Timestamp x) ?all"
    using sorted_sort_key [of "\<lambda>e. - ev_Timestamp e" ?rows] by (simp add: sorted_map)
  ultimately show ?thesis by (intro exI [of _ ?all]) simp
qed

lemma Query_pages_witness:
  "Query (all_events\<lparr>af_Limit := 10, af_Offset := 0\<rparr>) (sample_audit\<lparr>c_db := empty_db\<lparr>t_audit_log := [sample_event]\<rparr>\<rparr>) =
     (Inr ([sample_event], 1), sample_audit\<lparr>c_db := empty_db\<lparr>t_audit_log := [sample_event]\<rparr>\<rparr>)"
proof -
  let ?c = "sample_audit\<lparr>c_db := empty_db\<lparr>t_audit_log := [sample_event]\<rparr>\<rparr>"
  have "calm ?c" by (simp add: sample_audit_def calm_def)
  from Query_pages [OF this, of 10 0 all_events] obtain all where
    m: "mset all = mset [sample_event]"
    and run: "Query (all_events\<lparr>af_Limit := 10, af_Offset := 0\<rparr>) ?c = (Inr (take 10 all, int (length all)), ?c)"
    by auto
  have "all = [sample_event]" using m by simp
  with run show ?thesis by simp
qed

end
