(* ===== verification/Api_Middleware.thy ===== *)
theory Api_Middleware
  imports Policy_Evaluator Audit_Logger
begin

text \<open>
  \<open>internal/api/middleware.go\<close>: the two functions every guarded endpoint is wrapped in. A handler
  takes a request and a state to a response and a state. The body of a response is a text, a
  text that ends with an error's own text, or a JSON document, represented by what it encodes.
\<close>

section \<open>Requests, responses, handlers\<close>

text \<open>\<open>hr_AgentDID\<close> is the header \<open>X-Agent-DID\<close>, empty when it is missing.\<close>

record http_request =
  hr_Method :: string
  hr_Path :: string
  hr_AgentDID :: string
  hr_Query :: "string \<Rightarrow> string"
  hr_PathValue :: "string \<Rightarrow> string"
  hr_Body :: bytes

datatype 'j body = Empty | Text string | Failure string error | Json 'j

record 'j response =
  rp_status :: int
  rp_body :: "'j body"

type_synonym ('s, 'j) handler = "http_request \<Rightarrow> 's \<Rightarrow> 'j response \<times> 's"

definition Error :: "string \<Rightarrow> int \<Rightarrow> 'j response" where
  "Error text code = \<lparr>rp_status = code, rp_body = Text text\<rparr>"

definition ErrorOf :: "string \<Rightarrow> error \<Rightarrow> int \<Rightarrow> 'j response" where
  "ErrorOf text err code = \<lparr>rp_status = code, rp_body = Failure text err\<rparr>"

section \<open>What a request asks for\<close>

definition mapHTTPMethodToAction :: "string \<Rightarrow> string" where
  "mapHTTPMethodToAction method =
     (if method = ''GET'' then ''read''
      else if method = ''POST'' \<or> method = ''PUT'' \<or> method = ''PATCH'' then ''write''
      else if method = ''DELETE'' then ''delete''
      else ''unknown'')"

text \<open>\<open>strings.Trim\<close>, \<open>strings.Split\<close> and \<open>strings.Join\<close> with the separator \<open>/\<close>.\<close>

definition Trim :: "char \<Rightarrow> string \<Rightarrow> string" where
  "Trim c s = rev (dropWhile (\<lambda>x. x = c) (rev (dropWhile (\<lambda>x. x = c) s)))"

fun Split :: "char \<Rightarrow> string \<Rightarrow> string list" where
  "Split c [] = [[]]"
| "Split c (x # s) =
     (if x = c then [] # Split c s
      else (case Split c s of [] \<Rightarrow> [[x]] | w # ws \<Rightarrow> (x # w) # ws))"

fun Join :: "char \<Rightarrow> string list \<Rightarrow> string" where
  "Join c [] = []"
| "Join c [w] = w"
| "Join c (w # ws) = w @ [c] @ Join c ws"

definition mapPathToResource :: "string \<Rightarrow> string \<times> string" where
  "mapPathToResource path =
     (let parts = Split CHR ''/'' (Trim CHR ''/'' path)
      in if 2 \<le> length parts
         then let ns = Join CHR ''/'' (drop 2 parts)
              in (parts ! 1, if ns = [] then ''default'' else ns)
         else (''unknown'', ''default''))"

definition policy_request :: "http_request \<Rightarrow> Request" where
  "policy_request r =
     (let (resourceType, namespace) = mapPathToResource (hr_Path r)
      in \<lparr>rq_AgentDID = hr_AgentDID r, rq_Action = mapHTTPMethodToAction (hr_Method r),
          rq_MemoryType = resourceType, rq_Namespace = namespace\<rparr>)"

section \<open>The two wrappers\<close>

text \<open>
  \<open>logging\<close> says that there is a logger; \<open>ms\<close> is the measured duration. A status that the
  handler does not write is 200.
\<close>

definition request_event :: "int \<Rightarrow> http_request \<Rightarrow> int \<Rightarrow> Event" where
  "request_event ms r status =
     \<lparr>ev_ID = [], ev_Timestamp = zero_time,
      ev_AgentDID = (if hr_AgentDID r = [] then ''anonymous'' else hr_AgentDID r),
      ev_Action = hr_Method r, ev_Resource = hr_Path r, ev_Allowed = (status < 400),
      ev_PolicyID = [], ev_Reason = [],
      ev_Metadata = Some [(''duration_ms'', ms), (''status'', status)]\<rparr>"

definition AuditMiddleware :: "bool \<Rightarrow> int \<Rightarrow> ('w \<times> Logger, 'j) handler \<Rightarrow> ('w \<times> Logger, 'j) handler" where
  "AuditMiddleware logging ms handle r s =
     (case handle r s of
        (resp, (w, l)) \<Rightarrow> (resp, (w, if logging then Log (request_event ms r (rp_status resp)) l else l)))"

text \<open>\<open>evaluate\<close> is the evaluator's \<open>Evaluate\<close>.\<close>

definition PolicyMiddleware ::
  "(Request \<Rightarrow> 's \<Rightarrow> (Result \<times> error option) \<times> 's) \<Rightarrow> ('s, 'j) handler \<Rightarrow> ('s, 'j) handler" where
  "PolicyMiddleware evaluate handle r s =
     (if hr_AgentDID r = [] then (Error ''Unauthorized: missing X-Agent-DID'' 401, s)
      else
        (case evaluate (policy_request r) s of
           ((result, Some err), s') \<Rightarrow> (Error ''Internal Server Error'' 500, s')
         | ((result, None), s') \<Rightarrow>
             if \<not> rs_Allowed result then (Error (''Forbidden: '' @ rs_Reason result) 403, s')
             else handle r s'))"

section \<open>Paths\<close>

lemma Split_nonempty [simp]: "Split c s \<noteq> []"
  by (induction s) (auto split: list.splits)

lemma Join_Cons: "ws \<noteq> [] \<Longrightarrow> Join c (w # ws) = w @ [c] @ Join c ws"
  by (cases ws) simp_all

lemma Join_Split [simp]: "Join c (Split c s) = s"
proof (induction s)
  case (Cons x s)
  then show ?case
    by (cases "Split c s"; cases "tl (Split c s)") (auto simp: Join_Cons)
qed simp

lemma Split_word: "c \<notin> set w \<Longrightarrow> Split c (w @ c # s) = w # Split c s"
  by (induction w) auto

lemma Split_single: "c \<notin> set w \<Longrightarrow> Split c w = [w]"
  by (induction w) auto

lemma Trim_slash:
  assumes "s = [] \<or> (hd s \<noteq> c \<and> last s \<noteq> c)"
  shows "Trim c (c # s) = s"
proof -
  have keep: "dropWhile (\<lambda>x. x = c) t = t" if "t = [] \<or> hd t \<noteq> c" for t using that by (cases t) auto
  have "dropWhile (\<lambda>x. x = c) (rev s) = rev s" using assms by (intro keep) (auto simp: hd_rev)
  then show ?thesis using keep [of s] assms by (auto simp: Trim_def)
qed

text \<open>A path \<open>/service/type/namespace\<close> is read as its second part and the rest.\<close>

lemma mapPath_type:
  assumes "a \<noteq> []" "CHR ''/'' \<notin> set a" "t \<noteq> []" "CHR ''/'' \<notin> set t"
  shows "mapPathToResource (''/'' @ a @ ''/'' @ t) = (t, ''default'')"
    and "ns \<noteq> [] \<Longrightarrow> last ns \<noteq> CHR ''/'' \<Longrightarrow> mapPathToResource (''/'' @ a @ ''/'' @ t @ ''/'' @ ns) = (t, ns)"
proof -
  have h: "hd (a @ x) \<noteq> CHR ''/''" for x using assms(1,2) by (cases a) auto
  have "last t \<noteq> CHR ''/''" using assms(3,4) last_in_set by metis
  then have "Trim CHR ''/'' (''/'' @ a @ ''/'' @ t) = a @ ''/'' @ t"
    using h [of "''/'' @ t"] assms(1,3) Trim_slash [of "a @ ''/'' @ t" "CHR ''/''"] by simp
  then show "mapPathToResource (''/'' @ a @ ''/'' @ t) = (t, ''default'')"
    using Split_word [OF assms(2)] Split_single [OF assms(4)] by (simp add: mapPathToResource_def)
  assume ns: "ns \<noteq> []" "last ns \<noteq> CHR ''/''"
  then have "Trim CHR ''/'' (''/'' @ a @ ''/'' @ t @ ''/'' @ ns) = a @ ''/'' @ t @ ''/'' @ ns"
    using h [of "''/'' @ t @ ''/'' @ ns"] assms(1) Trim_slash [of "a @ ''/'' @ t @ ''/'' @ ns" "CHR ''/''"] by simp
  then show "mapPathToResource (''/'' @ a @ ''/'' @ t @ ''/'' @ ns) = (t, ns)"
    using ns(1) Split_word [OF assms(2)] Split_word [OF assms(4)] by (simp add: mapPathToResource_def Let_def)
qed

section \<open>Properties\<close>

lemma policy_guard:
  assumes kv: "kv_client client entry" and fresh: "cache_fresh entry w"
    and run: "PolicyMiddleware (Evaluate uf (Some (service_cache client)) (service_store now)) handle r w = (resp, w')"
    and ps: "ps = policies_of (hr_AgentDID r) (c_db (fst w))"
  shows "(hr_AgentDID r \<noteq> [] \<and> (\<exists>p \<in> set ps. rule_says uf (policy_request r) ''allow'' p) \<and>
       \<not> (\<exists>p \<in> set ps. rule_says uf (policy_request r) ''deny'' p) \<and>
       (\<exists>w1. c_db (fst w1) = c_db (fst w) \<and> cache_fresh entry w1 \<and> handle r w1 = (resp, w'))) \<or>
    (rp_status resp \<in> {401, 403, 500} \<and> (rp_status resp = 401 \<longleftrightarrow> hr_AgentDID r = []) \<and>
       c_db (fst w') = c_db (fst w) \<and> cache_fresh entry w')"
proof (cases "hr_AgentDID r = []")
  case True
  then show ?thesis using run fresh by (auto simp: PolicyMiddleware_def Error_def)
next
  case False
  have agent: "rq_AgentDID (policy_request r) = hr_AgentDID r"
    by (simp add: policy_request_def split: prod.splits)
  obtain res err w1 where eval: "Evaluate uf (Some (service_cache client)) (service_store now) (policy_request r) w = ((res, err), w1)"
    by (metis prod.exhaust)
  note reads = service_Evaluate_reads [OF eval] and eff = service_Evaluate [OF kv fresh eval]
  show ?thesis
  proof (cases "err = None \<and> rs_Allowed res")
    case True
    then have "handle r w1 = (resp, w')" and "rs_Allowed (decide uf (policy_request r) ps)"
      using run False eval eff by (simp_all add: PolicyMiddleware_def agent ps)
    then show ?thesis using False reads eff decide_allowed [of uf "policy_request r" ps] by blast
  next
    case refused: False
    then have "rp_status resp \<in> {403, 500} \<and> w' = w1"
      using run False eval by (auto simp: PolicyMiddleware_def Error_def split: option.splits)
    then show ?thesis using False reads eff by auto
  qed
qed


definition sample_http :: "string \<Rightarrow> string \<Rightarrow> string \<Rightarrow> http_request" where
  "sample_http method path did = \<lparr>hr_Method = method, hr_Path = path, hr_AgentDID = did, hr_Query = (\<lambda>_. []),
     hr_PathValue = (\<lambda>_. []), hr_Body = []\<rparr>"


definition memory_types :: "string list" where
  "memory_types = [Working, Episodic, Semantic, Procedural, Declarative, Feedback]"

lemma memory_types_fold: "t \<in> set memory_types \<Longrightarrow> \<not> EqualFold uf t ''memory''"
  by (auto simp: memory_types_def memory_type_defs ascii_def ascii_lower_def)

lemma POST_memory_request:
  assumes "hr_Method r = ''POST''" and "hr_Path r = ''/api/memory''"
  shows "policy_request r = \<lparr>rq_AgentDID = hr_AgentDID r, rq_Action = ''write'', rq_MemoryType = ''memory'',
    rq_Namespace = ''default''\<rparr>"
proof -
  have "mapPathToResource (''/'' @ ''api'' @ ''/'' @ ''memory'') = (''memory'', ''default'')"
    by (rule mapPath_type(1)) simp_all
  then show ?thesis using assms by (simp add: policy_request_def mapHTTPMethodToAction_def)
qed

text \<open>
  C40: what the middleware asks the policies for a store. For \<open>POST /api/memory\<close> the type is always
  \<open>memory\<close> and the namespace \<open>default\<close>, whatever the body says. So as long as the target types of
  an agent's rules are among the six memory types (as in the documented policies), every such
  request of it is refused, and nothing stored changes.
\<close>

theorem typed_rules_never_apply:
  assumes kv: "kv_client client entry" and fresh: "cache_fresh entry w"
    and post: "hr_Method r = ''POST''" "hr_Path r = ''/api/memory''"
    and rules: "\<And>p rule. p \<in> set (policies_of (hr_AgentDID r) (c_db (fst w))) \<Longrightarrow>
      rule \<in> set (c_MemoryRules (p_Content p)) \<Longrightarrow> set (mr_TargetTypes rule) \<subseteq> set memory_types"
    and run: "PolicyMiddleware (Evaluate uf (Some (service_cache client)) (service_store now)) handle r w = (resp, w')"
  shows "rp_status resp \<in> {401, 403, 500} \<and> c_db (fst w') = c_db (fst w)"
proof -
  let ?ps = "policies_of (hr_AgentDID r) (c_db (fst w))"
  have "\<not> matches uf (policy_request r) rule" if "p \<in> set ?ps" "rule \<in> set (c_MemoryRules (p_Content p))" for p rule
  proof -
    have "\<not> (\<exists>t \<in> set (mr_TargetTypes rule). t = ''*'' \<or> EqualFold uf t ''memory'')"
      using rules [OF that] memory_types_fold by (auto simp: memory_types_def memory_type_defs)
    then show ?thesis by (simp add: matches_def POST_memory_request [OF post])
  qed
  then have "\<not> (\<exists>p \<in> set ?ps. rule_says uf (policy_request r) ''allow'' p)"
    by (auto simp: rule_says_def)
  then show ?thesis using policy_guard [OF kv fresh run refl] by blast
qed

definition semantic_rule :: MemoryRule where
  "semantic_rule = (sample_rule ''*'' ''allow'')\<lparr>mr_TargetTypes := [Semantic], mr_Namespaces := [''*'']\<rparr>"

theorem typed_rules_never_apply_witness:
  "rp_status (fst (PolicyMiddleware (Evaluate (=) (Some (service_cache (reference_server (\<lambda>_ _. True)))) (service_store 0))
      (\<lambda>_ w. (\<lparr>rp_status = 201, rp_body = Empty :: unit body\<rparr>, w)) (sample_http ''POST'' ''/api/memory'' ''did:a'')
      (sample_world [] [sample_policy ''p1'' ''did:a'' [semantic_rule]]))) \<in> {401, 403, 500}"
proof -
  let ?w = "sample_world [] [sample_policy ''p1'' ''did:a'' [semantic_rule]]"
  obtain resp w' where run: "PolicyMiddleware (Evaluate (=) (Some (service_cache (reference_server (\<lambda>_ _. True)))) (service_store 0))
      (\<lambda>_ w. (\<lparr>rp_status = 201, rp_body = Empty :: unit body\<rparr>, w)) (sample_http ''POST'' ''/api/memory'' ''did:a'') ?w = (resp, w')"
    by (rule prod.exhaust)
  have fresh: "cache_fresh server_entry ?w"
    by (simp add: cache_fresh_def cached_policies_def sample_policy_defs server_entry_def)
  have rules: "set (mr_TargetTypes rule) \<subseteq> set memory_types"
    if "p \<in> set (policies_of ''did:a'' (c_db (fst ?w)))" "rule \<in> set (c_MemoryRules (p_Content p))" for p rule
    using that
    by (auto simp: policies_of_def sample_policy_defs sample_db_policies_def sample_policy_def semantic_rule_def memory_types_def memory_type_defs)
  have http: "hr_Method (sample_http ''POST'' ''/api/memory'' ''did:a'') = ''POST''"
    "hr_Path (sample_http ''POST'' ''/api/memory'' ''did:a'') = ''/api/memory''"
    "hr_AgentDID (sample_http ''POST'' ''/api/memory'' ''did:a'') = ''did:a''" by (simp_all add: sample_http_def)
  have "rp_status resp \<in> {401, 403, 500} \<and> c_db (fst w') = c_db (fst ?w)"
    by (rule typed_rules_never_apply [OF reference.kv_client_axioms fresh http(1,2) _ run]) (rule rules, simp_all add: http)
  then show ?thesis unfolding run fst_conv by (rule conjunct1)
qed

end
