(* ===== verification/Memory_Port.thy ===== *)
theory Memory_Port
  imports Models
begin

text \<open>
  The interfaces of the memory engine: \<open>TrustPort\<close> (\<open>internal/memory/trust_port.go\<close>), what the
  engine asks of the trust layer, and \<open>Store\<close> (\<open>internal/memory/store.go\<close>), what the router asks
  of a backend. A Go interface value is a record of its methods, over a state \<open>'s\<close>; a nil
  interface is \<open>None\<close>. The locales say what an implementation promises.
\<close>

section \<open>The trust layer as the memory engine sees it\<close>

record AttestationRecord =
  rc_ID :: uuid
  rc_AgentDID :: string
  rc_MemoryID :: uuid
  rc_Claim :: string
  rc_Signature :: bytes
  rc_Timestamp :: time

record 's TrustPort =
  tp_VerifySignature :: "string \<Rightarrow> uuid \<Rightarrow> bytes \<Rightarrow> bytes \<Rightarrow> ('s, unit) proc"
  tp_GetAgentReputation :: "string \<Rightarrow> ('s, int) proc"
  tp_IsAgentActive :: "string \<Rightarrow> ('s, bool) proc"
  tp_GetAttestationsForMemory :: "uuid \<Rightarrow> ('s, AttestationRecord list) proc"
  tp_RecordEvent :: "string \<Rightarrow> string \<Rightarrow> int \<Rightarrow> string \<Rightarrow> ('s, unit) proc"

text \<open>
  \<open>view s\<close> is the stored data of a state, \<open>agent v did\<close> the registered key and score of an agent
  in it, and \<open>valid key id content sig\<close> says that a signature is right. The three questions
  change no stored data, and a positive answer is true of the registered agent.
\<close>

locale trust_port =
  fixes port :: "'s TrustPort"
    and view :: "'s \<Rightarrow> 'v"
    and agent :: "'v \<Rightarrow> string \<Rightarrow> (bytes \<times> int) option"
    and valid :: "bytes \<Rightarrow> uuid \<Rightarrow> bytes \<Rightarrow> bytes \<Rightarrow> bool"
  assumes active_reads: "tp_IsAgentActive port did s = (r, s') \<Longrightarrow> view s' = view s"
    and active_true: "tp_IsAgentActive port did s = (Inr True, s') \<Longrightarrow> agent (view s) did \<noteq> None"
    and verify_reads: "tp_VerifySignature port did i content sig s = (q, s') \<Longrightarrow> view s' = view s"
    and verify_ok: "tp_VerifySignature port did i content sig s = (Inr u, s') \<Longrightarrow>
      \<exists>key n. agent (view s) did = Some (key, n) \<and> valid key i content sig"
    and reputation_reads: "tp_GetAgentReputation port did s = (p, s') \<Longrightarrow> view s' = view s"
    and reputation_is: "tp_GetAgentReputation port did s = (Inr n, s') \<Longrightarrow>
      \<exists>key. agent (view s) did = Some (key, n)"

text \<open>The same port over a larger state.\<close>

definition lift_port :: "('w \<Rightarrow> 's) \<Rightarrow> ('s \<Rightarrow> 'w \<Rightarrow> 'w) \<Rightarrow> 's TrustPort \<Rightarrow> 'w TrustPort" where
  "lift_port get put port =
     \<lparr>tp_VerifySignature = (\<lambda>did i content sig. lift get put (tp_VerifySignature port did i content sig)),
      tp_GetAgentReputation = (\<lambda>did. lift get put (tp_GetAgentReputation port did)),
      tp_IsAgentActive = (\<lambda>did. lift get put (tp_IsAgentActive port did)),
      tp_GetAttestationsForMemory = (\<lambda>i. lift get put (tp_GetAttestationsForMemory port i)),
      tp_RecordEvent = (\<lambda>did ty delta desc. lift get put (tp_RecordEvent port did ty delta desc))\<rparr>"

lemma lift_port_simps [simp]:
  "tp_VerifySignature (lift_port get put port) did i content sig =
     lift get put (tp_VerifySignature port did i content sig)"
  "tp_GetAgentReputation (lift_port get put port) did = lift get put (tp_GetAgentReputation port did)"
  "tp_IsAgentActive (lift_port get put port) did = lift get put (tp_IsAgentActive port did)"
  "tp_GetAttestationsForMemory (lift_port get put port) i = lift get put (tp_GetAttestationsForMemory port i)"
  "tp_RecordEvent (lift_port get put port) did ty delta desc =
     lift get put (tp_RecordEvent port did ty delta desc)"
  by (simp_all add: lift_port_def)

lemma trust_port_lift:
  assumes port: "trust_port port view agent valid" and lens: "\<And>s w. get (put s w) = s"
  shows "trust_port (lift_port get put port) (\<lambda>w. view (get w)) agent valid"
proof (unfold_locales, goal_cases)
  case (1 did s r s')
  then show ?case using trust_port.active_reads [OF port] by (auto simp: lens elim!: liftE)
next
  case (2 did s s')
  then show ?case using trust_port.active_true [OF port] by (fastforce simp: lens elim!: liftE)
next
  case (3 did i content sig s q s')
  then show ?case using trust_port.verify_reads [OF port] by (auto simp: lens elim!: liftE)
next
  case (4 did i content sig s u s')
  then show ?case using trust_port.verify_ok [OF port] by (fastforce simp: lens elim!: liftE)
next
  case (5 did s p s')
  then show ?case using trust_port.reputation_reads [OF port] by (auto simp: lens elim!: liftE)
next
  case (6 did s n s')
  then show ?case using trust_port.reputation_is [OF port] by (fastforce simp: lens elim!: liftE)
qed

section \<open>A backend as the router sees it\<close>

text \<open>
  The \<open>Store\<close> interface. \<open>RetrieveOpts\<close> is read by no backend and left out. \<open>RedactPII\<close> and
  \<open>Expire\<close> return the number of memories they touched.
\<close>

record 's MemoryStore =
  ms_Store :: "Memory \<Rightarrow> ('s, unit) proc"
  ms_Update :: "Memory \<Rightarrow> ('s, unit) proc"
  ms_Delete :: "uuid \<Rightarrow> ('s, unit) proc"
  ms_Retrieve :: "uuid \<Rightarrow> ('s, Memory) proc"
  ms_Search :: "SearchQuery \<Rightarrow> ('s, SearchResult) proc"
  ms_ListByNamespace :: "string \<Rightarrow> ListOpts \<Rightarrow> ('s, SearchResult) proc"
  ms_RedactPII :: "string \<Rightarrow> string list \<Rightarrow> ('s, int) proc"
  ms_Expire :: "time \<Rightarrow> ('s, int) proc"
  ms_Ping :: "('s, unit) proc"

text \<open>
  What a backend promises: it is a partial map \<open>live s\<close> from identifiers to memories. A
  successful \<open>Store\<close> of a memory of a type it accepts makes the memory, in the form \<open>form\<close> in
  which the backend returns it, the one under its identifier and touches no other; \<open>Retrieve\<close>
  returns what is there and \<open>Delete\<close> removes it. \<open>id_ok\<close> says which identifiers are well
  formed and \<open>ok\<close> is an invariant of the stored data.
\<close>

locale memory_store =
  fixes st :: "'s MemoryStore"
    and ok :: "'s \<Rightarrow> bool"
    and id_ok :: "uuid \<Rightarrow> bool"
    and live :: "'s \<Rightarrow> uuid \<Rightarrow> Memory option"
    and form :: "Memory \<Rightarrow> Memory"
    and accepts :: "MemoryType \<Rightarrow> bool"
  assumes store_type: "ms_Store st m s = (Inr u, s') \<Longrightarrow> accepts (m_Type m)"
    and store_live: "ok s \<Longrightarrow> id_ok (m_ID m) \<Longrightarrow> ms_Store st m s = (Inr u, s') \<Longrightarrow> id_ok i \<Longrightarrow>
      live s' i = (if i = m_ID m then Some (form m) else live s i)"
    and store_ok: "ok s \<Longrightarrow> id_ok (m_ID m) \<Longrightarrow> ms_Store st m s = (r, s') \<Longrightarrow> ok s'"
    and retrieve_live: "ok s \<Longrightarrow> id_ok i \<Longrightarrow> ms_Retrieve st i s = (Inr m, s') \<Longrightarrow>
      live s i = Some m"
    and retrieve_reads: "ms_Retrieve st i s = (q, s') \<Longrightarrow> live s' = live s \<and> (ok s \<longrightarrow> ok s')"
    and delete_live: "ok s \<Longrightarrow> id_ok i \<Longrightarrow> ms_Delete st i s = (Inr u, s') \<Longrightarrow> id_ok j \<Longrightarrow>
      live s' j = (if j = i then None else live s j)"
    and delete_ok: "ok s \<Longrightarrow> id_ok i \<Longrightarrow> ms_Delete st i s = (r, s') \<Longrightarrow> ok s'"
begin

lemma store_then_retrieve:
  assumes "ok s" and "id_ok (m_ID m)" and "ms_Store st m s = (Inr u, s1)"
    and "id_ok i" and "ms_Retrieve st i s1 = (Inr m', s2)"
  shows "if i = m_ID m then m' = form m else live s i = Some m'"
proof -
  have "live s1 i = Some m'"
    using retrieve_live [OF store_ok [OF assms(1,2,3)] assms(4,5)] .
  then show ?thesis using store_live [OF assms(1-4)] by (simp split: if_splits)
qed

lemma delete_then_retrieve:
  assumes "ok s" and "id_ok i" and "ms_Delete st i s = (Inr u, s1)"
  shows "\<exists>e. fst (ms_Retrieve st i s1) = Inl e"
proof (cases "fst (ms_Retrieve st i s1)")
  case (Inr m)
  then have "ms_Retrieve st i s1 = (Inr m, snd (ms_Retrieve st i s1))" by (metis prod.collapse)
  then have "live s1 i = Some m" by (rule retrieve_live [OF delete_ok [OF assms] assms(2)])
  then show ?thesis using delete_live [OF assms assms(2)] by simp
qed simp

end

text \<open>The same backend over a larger state keeps the same contract.\<close>

definition lift_memory_store :: "('w \<Rightarrow> 's) \<Rightarrow> ('s \<Rightarrow> 'w \<Rightarrow> 'w) \<Rightarrow> 's MemoryStore \<Rightarrow> 'w MemoryStore" where
  "lift_memory_store get put st =
     \<lparr>ms_Store = (\<lambda>m. lift get put (ms_Store st m)), ms_Update = (\<lambda>m. lift get put (ms_Update st m)),
      ms_Delete = (\<lambda>i. lift get put (ms_Delete st i)), ms_Retrieve = (\<lambda>i. lift get put (ms_Retrieve st i)),
      ms_Search = (\<lambda>q. lift get put (ms_Search st q)),
      ms_ListByNamespace = (\<lambda>ns opts. lift get put (ms_ListByNamespace st ns opts)),
      ms_RedactPII = (\<lambda>ns tys. lift get put (ms_RedactPII st ns tys)),
      ms_Expire = (\<lambda>t. lift get put (ms_Expire st t)), ms_Ping = lift get put (ms_Ping st)\<rparr>"

lemma lift_memory_store_simps [simp]:
  "ms_Store (lift_memory_store get put st) m = lift get put (ms_Store st m)"
  "ms_Update (lift_memory_store get put st) m = lift get put (ms_Update st m)"
  "ms_Delete (lift_memory_store get put st) i = lift get put (ms_Delete st i)"
  "ms_Retrieve (lift_memory_store get put st) i = lift get put (ms_Retrieve st i)"
  "ms_Search (lift_memory_store get put st) q = lift get put (ms_Search st q)"
  "ms_ListByNamespace (lift_memory_store get put st) ns opts = lift get put (ms_ListByNamespace st ns opts)"
  "ms_RedactPII (lift_memory_store get put st) ns tys = lift get put (ms_RedactPII st ns tys)"
  "ms_Expire (lift_memory_store get put st) t = lift get put (ms_Expire st t)"
  "ms_Ping (lift_memory_store get put st) = lift get put (ms_Ping st)"
  by (simp_all add: lift_memory_store_def)

lemma memory_store_lift:
  assumes st: "memory_store st ok id_ok live form accepts" and lens: "\<And>s w. get (put s w) = s"
  shows "memory_store (lift_memory_store get put st) (\<lambda>w. ok (get w)) id_ok (\<lambda>w. live (get w)) form accepts"
proof (unfold_locales, goal_cases)
  case (1 m w u w')
  then show ?case using memory_store.store_type [OF st] by (auto elim!: liftE)
next
  case (2 w m u w' i)
  then show ?case using memory_store.store_live [OF st] by (auto simp: lens elim!: liftE)
next
  case (3 w m r w')
  then show ?case using memory_store.store_ok [OF st] by (auto simp: lens elim!: liftE)
next
  case (4 w i m w')
  then show ?case using memory_store.retrieve_live [OF st] by (auto elim!: liftE)
next
  case (5 i w q w')
  then show ?case using memory_store.retrieve_reads [OF st] by (fastforce simp: lens elim!: liftE)
next
  case (6 w i u w' j)
  then show ?case using memory_store.delete_live [OF st] by (auto simp: lens elim!: liftE)
next
  case (7 w i r w')
  then show ?case using memory_store.delete_ok [OF st] by (auto simp: lens elim!: liftE)
qed

end
