(* ===== verification/Memory_Postgres.thy ===== *)
theory Memory_Postgres
  imports Database Memory_Port "HOL-Library.Multiset"
begin

text \<open>
  \<open>internal/memory/postgres_store.go\<close>: persistent memories in the table \<open>memories\<close>.
  \<open>marshal\<close> is \<open>json.Marshal\<close> of the raw content; \<open>jsonb\<close> is what a \<open>JSONB\<close> column returns of a
  text it is given, or \<open>None\<close> when it is no JSON (SQLSTATE 22P02). An embedding of no component
  is \<open>NULL\<close>; the column holds vectors of 1536 components (22000 otherwise).
\<close>

section \<open>Statements on \<open>memories\<close>\<close>

definition live_row :: "Memory \<Rightarrow> bool" where
  "live_row m \<longleftrightarrow> m_DeletedAt m = None"

definition persistent_types :: "string list" where
  "persistent_types = [Episodic, Semantic, Procedural, Declarative, Feedback]"

definition dims_ok :: "rat list \<Rightarrow> bool" where
  "dims_ok v \<longleftrightarrow> v = [] \<or> length v = 1536"

text \<open>
  \<open>INSERT\<close>: 23514 is the check on the type, 23505 the primary key, 23503 a foreign key (the
  agent, and the memory distilled from, which may be the row itself). \<open>content\<close> is the marshalled
  content; \<open>deleted_at\<close> is left out and so \<open>NULL\<close>.
\<close>

definition insert_memory :: "(bytes \<Rightarrow> bytes option) \<Rightarrow> bytes \<Rightarrow> Memory \<Rightarrow> unit sql" where
  "insert_memory jsonb content m d =
     (case jsonb content of
        None \<Rightarrow> Inl (PgError ''22P02'')
      | Some stored \<Rightarrow>
          let row = m\<lparr>m_Content := stored, m_DeletedAt := None\<rparr>;
              d' = d\<lparr>t_memories := t_memories d @ [row]\<rparr>
          in if \<not> dims_ok (m_Embedding m) then Inl (PgError ''22000'')
             else if m_Type m \<notin> set persistent_types then Inl (PgError ''23514'')
             else if m_ID m \<in> m_ID ` set (t_memories d) then Inl (PgError ''23505'')
             else if \<not> has_agent (m_AgentDID m) d then Inl (PgError ''23503'')
             else if \<not> has_memory (m_DistilledFrom m) d' then Inl (PgError ''23503'')
             else Inr ((), d'))"

text \<open>
  \<open>UPDATE ... WHERE id = $1 AND deleted_at IS NULL\<close>, returning the number of rows: the check
  and the foreign keys are tried only for a row that is updated.
\<close>

definition update_memory :: "(bytes \<Rightarrow> bytes option) \<Rightarrow> time \<Rightarrow> bytes \<Rightarrow> Memory \<Rightarrow> nat sql" where
  "update_memory jsonb t content m d =
     (case jsonb content of
        None \<Rightarrow> Inl (PgError ''22P02'')
      | Some stored \<Rightarrow>
          let hit = (\<lambda>r. m_ID r = m_ID m \<and> live_row r);
              n = count_where hit (t_memories d)
          in if \<not> dims_ok (m_Embedding m) then Inl (PgError ''22000'')
             else if n = 0 then Inr (0, d)
             else if m_Type m \<notin> set persistent_types then Inl (PgError ''23514'')
             else if \<not> has_agent (m_AgentDID m) d then Inl (PgError ''23503'')
             else if \<not> has_memory (m_DistilledFrom m) d then Inl (PgError ''23503'')
             else Inr (n, d\<lparr>t_memories := set_where hit
                    (\<lambda>r. m\<lparr>m_Content := stored, m_CreatedAt := m_CreatedAt r, m_UpdatedAt := t,
                           m_DeletedAt := m_DeletedAt r\<rparr>) (t_memories d)\<rparr>))"

definition mark_deleted :: "time \<Rightarrow> Memory \<Rightarrow> Memory" where
  "mark_deleted now m = m\<lparr>m_DeletedAt := Some now\<rparr>"

definition delete_where :: "time \<Rightarrow> (Memory \<Rightarrow> bool) \<Rightarrow> nat sql" where
  "delete_where now p d =
     Inr (count_where p (t_memories d), d\<lparr>t_memories := set_where p (mark_deleted now) (t_memories d)\<rparr>)"

text \<open>The columns \<open>Retrieve\<close> reads, and the fewer that \<open>ListByNamespace\<close> reads.\<close>

definition visible :: "Memory \<Rightarrow> Memory" where
  "visible m = m\<lparr>m_Embedding := [], m_DeletedAt := None\<rparr>"

definition listed :: "Memory \<Rightarrow> Memory" where
  "listed m = m\<lparr>m_Embedding := [], m_ValidFrom := None, m_ValidUntil := None, m_DistilledFrom := None,
     m_DeletedAt := None\<rparr>"

definition select_live :: "uuid \<Rightarrow> db \<Rightarrow> Memory option" where
  "select_live i d = map_option visible (find (\<lambda>m. m_ID m = i \<and> live_row m) (t_memories d))"

text \<open>\<open>ORDER BY created_at DESC LIMIT l OFFSET o\<close>; a negative number is 2201W or 2201X.\<close>

definition page :: "int \<Rightarrow> int \<Rightarrow> 'a list \<Rightarrow> error + 'a list" where
  "page l off rows =
     (if l < 0 then Inl (PgError ''2201W'')
      else if off < 0 then Inl (PgError ''2201X'')
      else Inr (take (nat l) (drop (nat off) rows)))"

definition select_namespace :: "string \<Rightarrow> ListOpts \<Rightarrow> Memory list sql" where
  "select_namespace ns opts d =
     (case page (lo_Limit opts) (lo_Offset opts)
        (sort_key (\<lambda>m. - m_CreatedAt m)
          (filter (\<lambda>m. m_Namespace m = ns \<and> live_row m \<and>
             (0 < length (lo_Types opts) \<longrightarrow> m_Type m \<in> set (lo_Types opts))) (t_memories d))) of
        Inl e \<Rightarrow> Inl e
      | Inr rows \<Rightarrow> Inr (map listed rows, d))"

section \<open>Operations\<close>

definition pg_Store ::
  "(bytes \<Rightarrow> error + bytes) \<Rightarrow> (bytes \<Rightarrow> bytes option) \<Rightarrow> Memory \<Rightarrow> (conn, unit) proc" where
  "pg_Store marshal jsonb m =
     (if \<not> IsPersistent (m_Type m)
      then fail (Plain (''postgres store does not support memory type '' @ m_Type m))
      else
        (case marshal (m_Content m) of
           Inl e \<Rightarrow> fail (Wrap ''marshal content'' e)
         | Inr content \<Rightarrow>
             attempt (db_stmt (insert_memory jsonb content m)) (Wrap ''insert memory'') (\<lambda>_. ret ())))"

definition pg_Update ::
  "(bytes \<Rightarrow> error + bytes) \<Rightarrow> (bytes \<Rightarrow> bytes option) \<Rightarrow> time \<Rightarrow> Memory \<Rightarrow> (conn, unit) proc" where
  "pg_Update marshal jsonb t m =
     (case marshal (m_Content m) of
        Inl e \<Rightarrow> fail (Wrap ''marshal content'' e)
      | Inr content \<Rightarrow>
          attempt (db_stmt (update_memory jsonb t content m)) (Wrap ''update memory'') (\<lambda>affected.
            if affected = 0 then fail (Plain ''memory not found or deleted'') else ret ()))"

definition pg_Delete :: "time \<Rightarrow> uuid \<Rightarrow> (conn, unit) proc" where
  "pg_Delete now i =
     attempt (db_stmt (delete_where now (\<lambda>m. m_ID m = i))) (Wrap ''delete memory'') (\<lambda>affected.
       if affected = 0 then fail (Plain ''memory not found'') else ret ())"

definition pg_Retrieve :: "uuid \<Rightarrow> (conn, Memory) proc" where
  "pg_Retrieve i =
     attempt (db_row (select_live i))
       (\<lambda>err. if err = ErrNoRows then Plain (''memory not found: '' @ i) else Wrap ''scan memory'' err)
       ret"

definition pg_ListByNamespace :: "string \<Rightarrow> ListOpts \<Rightarrow> (conn, SearchResult) proc" where
  "pg_ListByNamespace ns opts =
     attempt (db_stmt (select_namespace ns opts)) (Wrap ''list memories'') (\<lambda>results.
       ret \<lparr>res_Results = results, res_Total = int (length results), res_Limit = lo_Limit opts,
            res_Offset = lo_Offset opts\<rparr>)"

definition pg_RedactPII :: "string \<Rightarrow> string list \<Rightarrow> (conn, int) proc" where
  "pg_RedactPII ns piiTypes = ret 0"

definition expired :: "time \<Rightarrow> Memory \<Rightarrow> bool" where
  "expired before m \<longleftrightarrow> (case m_ValidUntil m of None \<Rightarrow> False | Some t \<Rightarrow> t < before) \<and> live_row m"

definition pg_Expire :: "time \<Rightarrow> time \<Rightarrow> (conn, int) proc" where
  "pg_Expire now before =
     attempt (db_stmt (delete_where now (expired before))) id (\<lambda>affected. ret (int affected))"

definition pg_Ping :: "(conn, unit) proc" where
  "pg_Ping = db_stmt (select (\<lambda>_. ()))"

text \<open>\<open>search\<close> is the searcher's \<open>Search\<close>, when the store has one.\<close>

definition pg_Search :: "(SearchQuery \<Rightarrow> (conn, SearchResult) proc) option \<Rightarrow> SearchQuery \<Rightarrow> (conn, SearchResult) proc" where
  "pg_Search searcher query =
     (case searcher of None \<Rightarrow> fail (Plain ''searcher not configured'') | Some search \<Rightarrow> search query)"

definition PostgresStore ::
  "(bytes \<Rightarrow> error + bytes) \<Rightarrow> (bytes \<Rightarrow> bytes option) \<Rightarrow> time \<Rightarrow> time \<Rightarrow>
     (SearchQuery \<Rightarrow> (conn, SearchResult) proc) option \<Rightarrow> conn MemoryStore" where
  "PostgresStore marshal jsonb t now searcher =
     \<lparr>ms_Store = pg_Store marshal jsonb, ms_Update = pg_Update marshal jsonb t,
      ms_Delete = pg_Delete now, ms_Retrieve = pg_Retrieve, ms_Search = pg_Search searcher,
      ms_ListByNamespace = pg_ListByNamespace, ms_RedactPII = pg_RedactPII,
      ms_Expire = pg_Expire now, ms_Ping = pg_Ping\<rparr>"

section \<open>What the statements keep\<close>

lemma mark_deleted_fields [simp]:
  "m_ID (mark_deleted now m) = m_ID m" "m_Type (mark_deleted now m) = m_Type m"
  "m_AgentDID (mark_deleted now m) = m_AgentDID m" "m_Namespace (mark_deleted now m) = m_Namespace m"
  "m_DistilledFrom (mark_deleted now m) = m_DistilledFrom m" "m_Content (mark_deleted now m) = m_Content m"
  "\<not> live_row (mark_deleted now m)"
  by (simp_all add: mark_deleted_def live_row_def)

lemma persistent_types_set: "set persistent_types = {Episodic, Semantic, Procedural, Declarative, Feedback}"
  by (simp add: persistent_types_def)

lemma insert_memory_row:
  assumes "insert_memory jsonb content m d = Inr (u, d')"
  obtains stored where "jsonb content = Some stored"
    and "d' = d\<lparr>t_memories := t_memories d @ [m\<lparr>m_Content := stored, m_DeletedAt := None\<rparr>]\<rparr>"
    and "m_ID m \<notin> m_ID ` set (t_memories d)" and "has_agent (m_AgentDID m) d"
    and "m_Type m \<in> set persistent_types" and "has_memory (m_DistilledFrom m) d'" and "dims_ok (m_Embedding m)"
  using assms by (auto simp: insert_memory_def Let_def split: option.splits if_splits)

lemma insert_memory_db_ok:
  assumes "insert_memory jsonb content m d = Inr (u, d')" and ok: "db_ok d"
  shows "db_ok d'"
  using assms(1)
proof (rule insert_memory_row)
  fix stored
  assume row: "d' = d\<lparr>t_memories := t_memories d @ [m\<lparr>m_Content := stored, m_DeletedAt := None\<rparr>]\<rparr>"
    "m_ID m \<notin> m_ID ` set (t_memories d)" "has_agent (m_AgentDID m) d"
    "m_Type m \<in> set persistent_types" "has_memory (m_DistilledFrom m) d'"
  have "keys_ok d'" "columns_ok d'"
    using ok row by (auto simp: db_ok_def keys_ok_def columns_ok_def persistent_types_set)
  moreover have "refs_ok d'"
    using ok row by (auto simp: db_ok_def refs_ok_def has_memory_def split: option.splits)
  ultimately show "db_ok d'" by (simp add: db_ok_def)
qed

lemma delete_where_db_ok:
  assumes "delete_where now p d = Inr (n, d')" and ok: "db_ok d"
  shows "db_ok d'"
proof -
  have d': "d' = d\<lparr>t_memories := set_where p (mark_deleted now) (t_memories d)\<rparr>"
    using assms(1) by (simp add: delete_where_def)
  have ids: "map m_ID (t_memories d') = map m_ID (t_memories d)"
    by (simp add: d' map_key_set_where)
  then have "has_memory i d' = has_memory i d" for i by (metis has_memory_cong list.set_map)
  then show ?thesis
    using ok ids unfolding d' by (auto simp: db_ok_defs set_set_where)
qed

lemma update_memory_db_ok:
  assumes "update_memory jsonb t content m d = Inr (n, d')" and ok: "db_ok d"
  shows "db_ok d'"
proof -
  consider "d' = d"
    | stored where "d' = d\<lparr>t_memories := set_where (\<lambda>r. m_ID r = m_ID m \<and> live_row r)
          (\<lambda>r. m\<lparr>m_Content := stored, m_CreatedAt := m_CreatedAt r, m_UpdatedAt := t, m_DeletedAt := m_DeletedAt r\<rparr>)
          (t_memories d)\<rparr>" "m_Type m \<in> set persistent_types" "has_agent (m_AgentDID m) d"
        "has_memory (m_DistilledFrom m) d"
    using assms(1) by (auto simp: update_memory_def Let_def split: option.splits if_splits)
  then show ?thesis
  proof cases
    case (2 stored)
    let ?f = "\<lambda>r. m\<lparr>m_Content := stored, m_CreatedAt := m_CreatedAt r, m_UpdatedAt := t, m_DeletedAt := m_DeletedAt r\<rparr>"
    have ids: "map m_ID (set_where (\<lambda>r. m_ID r = m_ID m \<and> live_row r) ?f xs) = map m_ID xs" for xs
      by (induction xs) auto
    then have "map m_ID (t_memories d') = map m_ID (t_memories d)" by (simp add: 2)
    then have mem: "has_memory i d' = has_memory i d" for i by (metis has_memory_cong list.set_map)
    then show ?thesis
      using ok 2 ids mem unfolding 2(1) by (auto simp: db_ok_defs set_set_where persistent_types_set)
  qed (use ok in simp)
qed

section \<open>The store keeps the contract\<close>

definition pg_ok :: "conn \<Rightarrow> bool" where
  "pg_ok c \<longleftrightarrow> distinct (map m_ID (t_memories (c_db c)))"

definition pg_live :: "conn \<Rightarrow> uuid \<Rightarrow> Memory option" where
  "pg_live c i = select_live i (c_db c)"

text \<open>The form in which a stored memory is read back: its content normalised twice.\<close>

definition pg_form :: "(bytes \<Rightarrow> error + bytes) \<Rightarrow> (bytes \<Rightarrow> bytes option) \<Rightarrow> Memory \<Rightarrow> Memory" where
  "pg_form marshal jsonb m =
     visible (m\<lparr>m_Content := (case marshal (m_Content m) of
        Inl _ \<Rightarrow> m_Content m
      | Inr b \<Rightarrow> (case jsonb b of None \<Rightarrow> b | Some x \<Rightarrow> x))\<rparr>)"

lemma find_live_iff:
  "distinct (map m_ID t) \<Longrightarrow> find (\<lambda>m. m_ID m = i \<and> live_row m) t = Some m \<longleftrightarrow> m \<in> set t \<and> m_ID m = i \<and> live_row m"
  by (induction t) (auto simp: rev_image_eqI)

lemma find_live_append:
  "find P (t @ [m]) = (case find P t of None \<Rightarrow> if P m then Some m else None | Some r \<Rightarrow> Some r)"
  by (induction t) auto

lemma find_none_id: "i \<notin> m_ID ` set t \<Longrightarrow> find (\<lambda>m. m_ID m = i \<and> live_row m) t = None"
  by (induction t) auto

lemma insert_memory_live:
  assumes "insert_memory jsonb content m d = Inr (u, d')"
  shows "select_live i d' = (if i = m_ID m
    then (case jsonb content of None \<Rightarrow> None | Some x \<Rightarrow> Some (visible (m\<lparr>m_Content := x\<rparr>))) else select_live i d)"
  using assms
proof (rule insert_memory_row)
  fix stored
  assume "jsonb content = Some stored" "m_ID m \<notin> m_ID ` set (t_memories d)"
    "d' = d\<lparr>t_memories := t_memories d @ [m\<lparr>m_Content := stored, m_DeletedAt := None\<rparr>]\<rparr>"
  moreover have "live_row (m\<lparr>m_Content := stored, m_DeletedAt := None\<rparr>)" by (simp add: live_row_def)
  ultimately show ?thesis
    by (cases "find (\<lambda>r. m_ID r = i \<and> live_row r) (t_memories d)"; cases "i = m_ID m")
       (simp_all add: select_live_def find_live_append find_none_id visible_def)
qed

lemma find_holds: "find P t = Some m \<Longrightarrow> P m"
  by (induction t) (auto split: if_splits)

lemma delete_where_live:
  "delete_where now p d = Inr (n, d') \<Longrightarrow> distinct (map m_ID (t_memories d)) \<Longrightarrow>
     select_live i d' =
       (case find (\<lambda>m. m_ID m = i \<and> live_row m) (t_memories d) of
          None \<Rightarrow> None | Some m \<Rightarrow> if p m then None else Some (visible m))"
proof -
  assume d': "delete_where now p d = Inr (n, d')" and ids: "distinct (map m_ID (t_memories d))"
  have "find (\<lambda>m. m_ID m = i \<and> live_row m) (set_where p (mark_deleted now) t) =
      (case find (\<lambda>m. m_ID m = i \<and> live_row m) t of
         None \<Rightarrow> None | Some m \<Rightarrow> if p m then None else Some m)" if "distinct (map m_ID t)" for t
    using that by (induction t) (auto simp: find_none_id split: option.splits)
  from this [OF ids] d' show ?thesis
    by (auto simp: delete_where_def select_live_def split: option.splits)
qed

lemma db_stmt_Inr_iff_attempt:
  assumes "attempt (db_stmt f) w k c = (Inr v, c')"
  obtains a c1 where "f (c_db c) = Inr (a, c_db c1)" and "k a c1 = (Inr v, c')"
  using assms unfolding attempt_Inr_iff by (auto dest: db_stmt_InrD)

lemma attempt_stmt_db:
  assumes "attempt (db_stmt f) w k c = (r, c')" and "\<And>a t q t'. k a t = (q, t') \<Longrightarrow> c_db t' = c_db t"
  shows "c_db c' = c_db c \<or> (\<exists>a. f (c_db c) = Inr (a, c_db c'))"
proof -
  obtain q t where q: "db_stmt f c = (q, t)" by fastforce
  then have "c_db c' = c_db t" using assms by (cases q) (auto simp: attempt_def dest: assms(2))
  then show ?thesis using db_stmt_cases [OF q] by auto
qed

lemma ret_db: "ret v t = (q, t') \<Longrightarrow> c_db t' = c_db t" "fail e t = (q, t') \<Longrightarrow> c_db t' = c_db t"
  by (auto simp: ret_def fail_def)

lemma pg_Retrieve_reads: "pg_Retrieve i c = (r, c') \<Longrightarrow> c_db c' = c_db c"
  by (auto simp: pg_Retrieve_def db_row_def attempt_def scan_row_def ret_def fail_def
      dest!: db_stmt_cases simp: select_def split: prod.splits sum.splits option.splits)

interpretation pg: memory_store
  "PostgresStore marshal jsonb t now searcher" pg_ok "\<lambda>_. True" pg_live "pg_form marshal jsonb" IsPersistent
  for marshal jsonb t now searcher
proof (unfold_locales, goal_cases)
  case (1 m s u s')
  then show ?case by (auto simp: PostgresStore_def pg_Store_def fail_def split: if_splits)
next
  case (2 s m u s' i)
  then obtain b where "marshal (m_Content m) = Inr b" and "insert_memory jsonb b m (c_db s) = Inr (v, c_db s')" for v
    by (auto simp: PostgresStore_def pg_Store_def fail_def ret_def split: if_splits sum.splits
        elim!: db_stmt_Inr_iff_attempt)
  then show ?case
    using insert_memory_live [of jsonb b m "c_db s" "()" "c_db s'" i]
    by (auto simp: pg_live_def pg_form_def insert_memory_def split: option.splits)
next
  case (3 s m r s')
  then have "c_db s' = c_db s \<or> (\<exists>b a. insert_memory jsonb b m (c_db s) = Inr (a, c_db s'))"
    by (auto simp: PostgresStore_def pg_Store_def fail_def split: if_splits sum.splits
        dest!: attempt_stmt_db dest: ret_db)
  then show ?case using 3 by (auto simp: pg_ok_def elim!: insert_memory_row)
next
  case (4 s i m s')
  then show ?case
    by (auto simp: PostgresStore_def pg_Retrieve_def attempt_Inr_iff ret_def pg_live_def dest!: db_row_InrD)
next
  case (5 i s q s')
  then have "c_db s' = c_db s" by (auto simp: PostgresStore_def dest: pg_Retrieve_reads)
  then show ?case by (simp add: pg_live_def pg_ok_def fun_eq_iff)
next
  case (6 s i u s' j)
  then obtain n where d: "delete_where now (\<lambda>m. m_ID m = i) (c_db s) = Inr (n, c_db s')"
    by (auto simp: PostgresStore_def pg_Delete_def ret_def fail_def split: if_splits
        elim!: db_stmt_Inr_iff_attempt)
  show ?case
    using delete_where_live [OF d, of j] 6(1)
    by (cases "find (\<lambda>m. m_ID m = j \<and> live_row m) (t_memories (c_db s))")
       (auto simp: pg_live_def pg_ok_def select_live_def dest: find_holds)
next
  case (7 s i r s')
  then have "c_db s' = c_db s \<or> (\<exists>a. delete_where now (\<lambda>m. m_ID m = i) (c_db s) = Inr (a, c_db s'))"
    by (auto simp: PostgresStore_def pg_Delete_def dest!: attempt_stmt_db dest: ret_db split: if_splits)
  then show ?case using 7(1)
    by (auto simp: pg_ok_def delete_where_def map_key_set_where dest!: sym [of _ "c_db s'"])
qed

section \<open>Properties\<close>

lemma pg_Store_calm:
  assumes "calm c" and "IsPersistent (m_Type m)" and "marshal (m_Content m) = Inr b"
  shows "pg_Store marshal jsonb m c =
    (case insert_memory jsonb b m (c_db c) of
       Inl e \<Rightarrow> (Inl (Wrap ''insert memory'' e), c) | Inr (u, d) \<Rightarrow> (Inr (), c\<lparr>c_db := d\<rparr>))"
  using assms by (simp add: pg_Store_def attempt_def ret_def split: sum.splits)

lemma pg_Retrieve_calm:
  "calm c \<Longrightarrow> pg_Retrieve i c =
     (case pg_live c i of None \<Rightarrow> (Inl (Plain (''memory not found: '' @ i)), c) | Some m \<Rightarrow> (Inr m, c))"
  by (simp add: pg_Retrieve_def attempt_def ret_def pg_live_def split: option.splits)


definition sample_memory :: "uuid \<Rightarrow> time option \<Rightarrow> Memory" where
  "sample_memory i until = \<lparr>m_ID = i, m_Type = Semantic, m_Namespace = ''ns'', m_AgentDID = ''did:a'',
     m_Content = ''{}'', m_Embedding = [], m_Metadata = no_metadata, m_ValidFrom = None, m_ValidUntil = until,
     m_DistilledFrom = None, m_CreatedAt = 1, m_UpdatedAt = 1, m_DeletedAt = None\<rparr>"

definition sample_db_memories :: "Memory list \<Rightarrow> db" where
  "sample_db_memories ms = empty_db\<lparr>t_agents := [\<lparr>ag_DID = ''did:a'', ag_PublicKey = ''key'',
     ag_ReputationScore = 500, ag_CreatedAt = 0, ag_LastActiveAt = 0\<rparr>], t_memories := ms\<rparr>"

definition calm_conn :: "db \<Rightarrow> conn" where
  "calm_conn d = \<lparr>c_db = d, c_outcomes = [], c_aborted = False\<rparr>"

lemma calm_conn_simps [simp]: "calm (calm_conn d)" "c_db (calm_conn d) = d"
  by (simp_all add: calm_conn_def calm_def)

lemmas sample_memory_defs = sample_memory_def sample_db_memories_def empty_db_def


lemma count_where_delete: "count_where (expired b) (set_where (expired b) (mark_deleted now) t) = 0"
  by (simp add: count_where_zero_iff set_set_where expired_def) (auto simp: expired_def)

text \<open>
  Expiry is exact. On a served connection \<open>Expire\<close> hides exactly the memories that were
  readable and whose validity ended before the given time, returns their number, leaves every
  other memory as readable as it was, and run again with the same time finds nothing.
\<close>

lemma pg_Expire_exact:
  assumes calm: "calm c" and ok: "pg_ok c"
  shows "\<exists>c'. pg_Expire now before c = (Inr (int (count_where (expired before) (t_memories (c_db c)))), c') \<and>
    (\<forall>i. pg_live c' i = (case pg_live c i of
       None \<Rightarrow> None
     | Some m \<Rightarrow> (case m_ValidUntil m of None \<Rightarrow> Some m | Some t \<Rightarrow> if t < before then None else Some m))) \<and>
    fst (pg_Expire now' before c') = Inr 0"
proof -
  obtain d where d: "delete_where now (expired before) (c_db c) =
      Inr (count_where (expired before) (t_memories (c_db c)), d)"
    by (simp add: delete_where_def)
  let ?c = "c\<lparr>c_db := d\<rparr>"
  have "pg_Expire now before c = (Inr (int (count_where (expired before) (t_memories (c_db c)))), ?c)"
    using calm d by (simp add: pg_Expire_def attempt_def ret_def)
  moreover have "pg_live ?c i = (case pg_live c i of
       None \<Rightarrow> None
     | Some m \<Rightarrow> (case m_ValidUntil m of None \<Rightarrow> Some m | Some t \<Rightarrow> if t < before then None else Some m))" for i
    using delete_where_live [OF d, of i] ok
    by (cases "find (\<lambda>m. m_ID m = i \<and> live_row m) (t_memories (c_db c))")
       (auto simp: pg_live_def pg_ok_def select_live_def expired_def visible_def dest: find_holds split: option.splits)
  moreover have "t_memories d = set_where (expired before) (mark_deleted now) (t_memories (c_db c))"
    using d by (auto simp: delete_where_def)
  then have "fst (pg_Expire now' before ?c) = Inr 0"
    using calm by (simp add: pg_Expire_def attempt_def ret_def delete_where_def count_where_delete)
  ultimately show ?thesis by blast
qed

lemma pg_Expire_exact_witness:
  "\<exists>c'. pg_Expire 9 7 (calm_conn (sample_db_memories [sample_memory ''m1'' (Some 5), sample_memory ''m2'' (Some 8),
        sample_memory ''m3'' None])) = (Inr 1, c') \<and> pg_live c' ''m1'' = None \<and> pg_live c' ''m2'' \<noteq> None"
proof -
  let ?c = "calm_conn (sample_db_memories [sample_memory ''m1'' (Some 5), sample_memory ''m2'' (Some 8),
        sample_memory ''m3'' None])"
  have "pg_ok ?c" by (simp add: pg_ok_def sample_memory_defs)
  from pg_Expire_exact [OF _ this, of 9 7 0] obtain c' where
    run: "pg_Expire 9 7 ?c = (Inr (int (count_where (expired 7) (t_memories (c_db ?c)))), c')"
    and live: "\<And>i. pg_live c' i = (case pg_live ?c i of
       None \<Rightarrow> None
     | Some m \<Rightarrow> (case m_ValidUntil m of None \<Rightarrow> Some m | Some t \<Rightarrow> if t < 7 then None else Some m))"
    by auto
  have "pg_live ?c ''m1'' = Some (sample_memory ''m1'' (Some 5))" "pg_live ?c ''m2'' = Some (sample_memory ''m2'' (Some 8))"
    and "count_where (expired 7) (t_memories (c_db ?c)) = 1"
    by (simp_all add: pg_live_def select_live_def expired_def sample_memory_defs live_row_def visible_def)
  with run live [of "''m1''"] live [of "''m2''"] show ?thesis by (simp add: sample_memory_def)
qed

section \<open>Listing a namespace\<close>

definition in_namespace :: "string \<Rightarrow> string list \<Rightarrow> db \<Rightarrow> Memory list" where
  "in_namespace ns types d =
     filter (\<lambda>m. m_Namespace m = ns \<and> live_row m \<and> (types \<noteq> [] \<longrightarrow> m_Type m \<in> set types)) (t_memories d)"

lemma select_namespace_page:
  "0 \<le> lo_Limit opts \<Longrightarrow> 0 \<le> lo_Offset opts \<Longrightarrow> select_namespace ns opts d =
     Inr (map listed (take (nat (lo_Limit opts)) (drop (nat (lo_Offset opts))
            (sort_key (\<lambda>m. - m_CreatedAt m) (in_namespace ns (lo_Types opts) d)))), d)"
  by (simp add: select_namespace_def page_def in_namespace_def)

text \<open>
  The pages of a namespace's listing are consecutive parts of one list, the readable
  memories of the namespace (of the given types, or of all), newest first. On a served
  connection, for a non-negative limit and offset, \<open>ListByNamespace\<close> returns the elements of
  that list from the offset on, at most as many as the limit, and the next page goes on where
  one ended. \<open>Total\<close> is the number of elements on the page.
\<close>

lemma pg_ListByNamespace_pages:
  assumes calm: "calm c" and l: "0 \<le> l" and off: "0 \<le> off"
  shows "\<exists>all p q. mset all = mset (map listed (in_namespace ns types (c_db c))) \<and>
    sorted_wrt (\<lambda>x y. m_CreatedAt y \<le> m_CreatedAt x) all \<and>
    pg_ListByNamespace ns \<lparr>lo_Types = types, lo_Limit = l, lo_Offset = off\<rparr> c =
      (Inr \<lparr>res_Results = p, res_Total = int (length p), res_Limit = l, res_Offset = off\<rparr>, c) \<and>
    p = take (nat l) (drop (nat off) all) \<and>
    pg_ListByNamespace ns \<lparr>lo_Types = types, lo_Limit = l, lo_Offset = off + l\<rparr> c =
      (Inr \<lparr>res_Results = q, res_Total = int (length q), res_Limit = l, res_Offset = off + l\<rparr>, c) \<and>
    p @ q = take (nat (2 * l)) (drop (nat off) all)"
proof -
  let ?rows = "sort_key (\<lambda>m. - m_CreatedAt m) (in_namespace ns types (c_db c))"
  let ?all = "map listed ?rows"
  have "sorted_wrt (\<lambda>x y. m_CreatedAt y \<le> m_CreatedAt x) ?rows"
    using sorted_sort_key [of "\<lambda>m. - m_CreatedAt m" "in_namespace ns types (c_db c)"] by (simp add: sorted_map)
  then have sorted: "sorted_wrt (\<lambda>x y. m_CreatedAt y \<le> m_CreatedAt x) ?all"
    by (simp add: sorted_wrt_map listed_def)
  have run: "pg_ListByNamespace ns \<lparr>lo_Types = types, lo_Limit = l, lo_Offset = o'\<rparr> c =
      (Inr \<lparr>res_Results = take (nat l) (drop (nat o') ?all),
            res_Total = int (length (take (nat l) (drop (nat o') ?all))), res_Limit = l, res_Offset = o'\<rparr>, c)"
    if "0 \<le> o'" for o'
    using calm l that
    by (simp add: pg_ListByNamespace_def attempt_def select_namespace_page ret_def take_map drop_map)
  have "take (nat l) (drop (nat off) ?all) @ take (nat l) (drop (nat (off + l)) ?all) =
      take (nat (2 * l)) (drop (nat off) ?all)"
  proof -
    have "drop (nat (off + l)) ?all = drop (nat l) (drop (nat off) ?all)"
      using l off by (simp add: nat_add_distrib add.commute)
    moreover have "nat (2 * l) = nat l + nat l" using l by simp
    ultimately show ?thesis by (simp only: take_add)
  qed
  then show ?thesis
    using run [OF off] run [of "off + l"] l off sorted
    by (intro exI [of _ ?all] exI [of _ "take (nat l) (drop (nat off) ?all)"]
        exI [of _ "take (nat l) (drop (nat (off + l)) ?all)"] conjI) simp_all
qed

lemma pg_ListByNamespace_pages_witness:
  "\<exists>p. pg_ListByNamespace ''ns'' \<lparr>lo_Types = [], lo_Limit = 1, lo_Offset = 0\<rparr>
      (calm_conn (sample_db_memories [sample_memory ''m1'' None, sample_memory ''m2'' None])) =
    (Inr \<lparr>res_Results = p, res_Total = 1, res_Limit = 1, res_Offset = 0\<rparr>,
     calm_conn (sample_db_memories [sample_memory ''m1'' None, sample_memory ''m2'' None]))"
proof -
  let ?ms = "[sample_memory ''m1'' None, sample_memory ''m2'' None]"
  let ?c = "calm_conn (sample_db_memories ?ms)"
  obtain all p where a: "mset all = mset (map listed (in_namespace ''ns'' [] (c_db ?c)))"
    and r: "pg_ListByNamespace ''ns'' \<lparr>lo_Types = [], lo_Limit = 1, lo_Offset = 0\<rparr> ?c =
      (Inr \<lparr>res_Results = p, res_Total = int (length p), res_Limit = 1, res_Offset = 0\<rparr>, ?c)"
    and p: "p = take (nat 1) (drop (nat 0) all)"
    using pg_ListByNamespace_pages [of ?c 1 0 "''ns''" "[]"] by auto
  have "size (mset all) = 2"
    unfolding a by (simp add: in_namespace_def sample_memory_defs live_row_def)
  then have "length p = 1" using p by simp
  with r show ?thesis by auto
qed

end
