(* ===== verification/Float64.thy ===== *)
theory Float64
  imports Prelude
begin

text \<open>
  Go's \<open>float64\<close>: finite values as rationals, every operation as the exact one followed by
  \<open>fl64\<close>, rounding to the nearest binary64 value, ties to even, with subnormal values below
  \<open>2 ^ -1022\<close>. (Infinities and NaN do not arise from the magnitudes the code handles; a sum
  of products is not fused, as on amd64.) The locale \<open>float_rounding\<close> states what the code's
  computations rely on; \<open>fl64\<close> provides it.
\<close>

section \<open>The interface\<close>

locale float_rounding =
  fixes fl :: "rat \<Rightarrow> rat"
  assumes fl_mono: "x \<le> y \<Longrightarrow> fl x \<le> fl y"
    and fl_int: "\<bar>z\<bar> \<le> 2 ^ 52 \<Longrightarrow> fl (of_int z) = of_int z"
    and fl_idem: "fl (fl x) = fl x"
begin

lemma fl_zero: "fl 0 = 0"
  using fl_int [of 0] by simp

lemma fl_nonneg: "0 \<le> x \<Longrightarrow> 0 \<le> fl x"
  using fl_mono [of 0 x] by (simp add: fl_zero)

lemma fl_le_int: "\<bar>z\<bar> \<le> 2 ^ 52 \<Longrightarrow> x \<le> of_int z \<Longrightarrow> fl x \<le> of_int z"
  using fl_mono [of x "of_int z"] by (simp add: fl_int)

lemma fl_ge_int: "\<bar>z\<bar> \<le> 2 ^ 52 \<Longrightarrow> of_int z \<le> x \<Longrightarrow> of_int z \<le> fl x"
  using fl_mono [of "of_int z" x] by (simp add: fl_int)

lemma fl_add_int:
  "\<bar>a + b\<bar> \<le> 2 ^ 52 \<Longrightarrow> fl (of_int a + of_int b) = of_int (a + b)"
  using fl_int [of "a + b"] by simp

lemma fl_diff_int:
  "\<bar>a - b\<bar> \<le> 2 ^ 52 \<Longrightarrow> fl (of_int a - of_int b) = of_int (a - b)"
  using fl_int [of "a - b"] by simp

end

section \<open>Rounding to an integer\<close>

text \<open>\<open>rne\<close> rounds half to even; \<open>math.Round\<close> rounds half away from zero.\<close>

definition rne :: "rat \<Rightarrow> int" where
  "rne x = (let f = \<lfloor>x\<rfloor>; r = x - of_int f
            in if r < 1 / 2 \<or> (r = 1 / 2 \<and> even f) then f else f + 1)"

definition math_Round :: "rat \<Rightarrow> int" where
  "math_Round x = (if 0 \<le> x then \<lfloor>x + 1 / 2\<rfloor> else - \<lfloor>1 / 2 - x\<rfloor>)"

lemma rne_int [simp]: "rne (of_int z) = z"
  by (simp add: rne_def)

lemma rne_bounds: "\<lfloor>x\<rfloor> \<le> rne x" "rne x \<le> \<lfloor>x\<rfloor> + 1"
  by (simp_all add: rne_def Let_def)

lemma rne_mono:
  assumes "x \<le> y"
  shows "rne x \<le> rne y"
proof (cases "\<lfloor>x\<rfloor> = \<lfloor>y\<rfloor>")
  case True
  then show ?thesis using assms by (auto simp: rne_def Let_def)
next
  case False
  then have "\<lfloor>x\<rfloor> + 1 \<le> \<lfloor>y\<rfloor>" using floor_mono [OF assms] by linarith
  then show ?thesis using rne_bounds(2) [of x] rne_bounds(1) [of y] by linarith
qed

lemma rne_minus: "rne (- x) = - rne x"
proof (cases "x = of_int \<lfloor>x\<rfloor>")
  case True
  then obtain z where "x = of_int z" by blast
  then show ?thesis using rne_int [of "- z"] by simp
next
  case False
  have fl: "\<lfloor>- x\<rfloor> = - \<lfloor>x\<rfloor> - 1"
  proof (rule floor_unique)
    show "of_int (- \<lfloor>x\<rfloor> - 1) \<le> - x" using of_int_floor_le [of x] floor_correct [of x] by simp
    show "- x < of_int (- \<lfloor>x\<rfloor> - 1) + 1" using False of_int_floor_le [of x] by (simp add: less_le)
  qed
  show ?thesis unfolding rne_def Let_def fl by (auto simp: algebra_simps)
qed

lemma math_Round_int [simp]: "math_Round (of_int z) = z"
proof -
  have "\<lfloor>rat_of_int z + 1 / 2\<rfloor> = z" by (rule floor_unique) auto
  moreover have "\<lfloor>1 / 2 - rat_of_int z\<rfloor> = - z" by (rule floor_unique) auto
  ultimately show ?thesis by (simp add: math_Round_def)
qed

lemma math_Round_mono:
  assumes "x \<le> y"
  shows "math_Round x \<le> math_Round y"
proof (cases "x < 0 \<and> 0 \<le> y")
  case True
  then have "0 \<le> \<lfloor>1 / 2 - x\<rfloor>" and "0 \<le> \<lfloor>y + 1 / 2\<rfloor>" by simp_all
  moreover have "math_Round x = - \<lfloor>1 / 2 - x\<rfloor>" and "math_Round y = \<lfloor>y + 1 / 2\<rfloor>"
    using True by (simp_all add: math_Round_def)
  ultimately show ?thesis by linarith
next
  case False
  then show ?thesis
    using assms floor_mono [of "x + 1 / 2" "y + 1 / 2"] floor_mono [of "1 / 2 - y" "1 / 2 - x"]
    by (auto simp: math_Round_def)
qed

section \<open>Powers of two\<close>

text \<open>\<open>ilog2 x\<close> is the exponent of the binade of a positive \<open>x\<close>.\<close>

fun flog :: "nat \<Rightarrow> nat" where
  "flog n = (if n < 2 then 0 else Suc (flog (n div 2)))"

declare flog.simps [simp del]

lemma flog_bounds: "0 < n \<Longrightarrow> 2 ^ flog n \<le> n \<and> n < 2 ^ Suc (flog n)"
proof (induction n rule: flog.induct)
  case (1 n)
  show ?case
  proof (cases "n < 2")
    case True
    with "1.prems" show ?thesis by (subst (1 2) flog.simps) simp
  next
    case False
    then have "2 ^ flog (n div 2) \<le> n div 2 \<and> n div 2 < 2 ^ Suc (flog (n div 2))"
      using "1.IH" by simp
    then show ?thesis using False by (subst (1 2) flog.simps) auto
  qed
qed

definition ilog2 :: "rat \<Rightarrow> int" where
  "ilog2 x = (let (n, d) = quotient_of x; e = int (flog (nat n)) - int (flog (nat d))
              in if 2 powi e \<le> x then e else e - 1)"

lemma ilog2_bounds:
  assumes "0 < x"
  shows "2 powi ilog2 x \<le> x" and "x < 2 powi (ilog2 x + 1)"
proof -
  obtain n d where q: "quotient_of x = (n, d)" by fastforce
  have x: "x = of_int n / of_int d" using q by (rule quotient_of_div)
  have d: "0 < d" using q by (rule quotient_of_denom_pos)
  have n: "0 < n" using assms d by (simp add: x zero_less_divide_iff)
  define a where "a = flog (nat n)"
  define b where "b = flog (nat d)"
  define e where "e = int a - int b"
  have a: "2 ^ a \<le> n" "n < 2 ^ Suc a"
    using flog_bounds [of "nat n"] n by (auto simp: a_def nat_less_iff le_nat_iff zless_nat_eq_int_zless)
  have b: "2 ^ b \<le> d" "d < 2 ^ Suc b"
    using flog_bounds [of "nat d"] d by (auto simp: b_def nat_less_iff le_nat_iff zless_nat_eq_int_zless)
  have ra: "(2::rat) ^ a \<le> of_int n" "of_int n < (2::rat) ^ Suc a"
    using a by (metis of_int_le_iff of_int_numeral of_int_power, metis of_int_less_iff of_int_numeral of_int_power)
  have rb: "(2::rat) ^ b \<le> of_int d" "of_int d < (2::rat) ^ Suc b"
    using b by (metis of_int_le_iff of_int_numeral of_int_power, metis of_int_less_iff of_int_numeral of_int_power)
  have up: "x < 2 powi (e + 1)"
  proof -
    have "x < 2 ^ Suc a / 2 ^ b"
      unfolding x using ra rb n by (intro frac_less) auto
    also have "\<dots> = 2 powi (e + 1)"
      by (simp add: e_def power_int_diff power_int_add flip: power_int_of_nat)
    finally show ?thesis .
  qed
  have lo: "2 powi (e - 1) \<le> x"
  proof -
    have "(2::rat) powi (e - 1) = 2 powi int a / 2 powi (int b + 1)"
      unfolding e_def by (subst power_int_diff [symmetric]) (auto simp: algebra_simps)
    also have "\<dots> = 2 ^ a / 2 ^ Suc b" by (simp add: power_int_add)
    also have "\<dots> \<le> x"
      unfolding x using ra rb n d by (intro frac_le) auto
    finally show ?thesis .
  qed
  have il: "ilog2 x = (if 2 powi e \<le> x then e else e - 1)"
    by (simp add: ilog2_def q e_def a_def b_def)
  show "2 powi ilog2 x \<le> x" using lo by (simp add: il)
  show "x < 2 powi (ilog2 x + 1)" using up by (simp add: il)
qed

lemma powi2_mono: "i \<le> j \<Longrightarrow> (2::rat) powi i \<le> 2 powi j"
  by (rule power_int_increasing) auto

lemma powi2_less_cancel: "(2::rat) powi i < 2 powi j \<Longrightarrow> i < j"
  by (meson leD not_le_imp_less powi2_mono)

lemma ilog2_mono: "0 < x \<Longrightarrow> x \<le> y \<Longrightarrow> ilog2 x \<le> ilog2 y"
  using ilog2_bounds [of x] ilog2_bounds [of y] powi2_less_cancel [of "ilog2 x" "ilog2 y + 1"]
  by fastforce

lemma powi2_multiple: "i \<le> j \<Longrightarrow> \<exists>k::int. (2::rat) powi j = of_int k * 2 powi i"
proof -
  assume "i \<le> j"
  then have "(2::rat) powi j = 2 ^ nat (j - i) * 2 powi i"
    by (simp flip: power_int_of_nat power_int_add)
  then show ?thesis by (intro exI [of _ "2 ^ nat (j - i)"]) simp
qed

section \<open>Binary64\<close>

definition quantum :: "rat \<Rightarrow> rat" where
  "quantum x = 2 powi max (ilog2 x - 52) (- 1074)"

definition fl64 :: "rat \<Rightarrow> rat" where
  "fl64 x = (if x = 0 then 0 else of_int (rne (x / quantum \<bar>x\<bar>)) * quantum \<bar>x\<bar>)"

lemma quantum_pos [simp]: "0 < quantum x"
  by (simp add: quantum_def)

lemma quantum_nonzero [simp]: "quantum x \<noteq> 0"
  by (simp add: less_imp_neq [symmetric])

lemma quantum_mono: "0 < x \<Longrightarrow> x \<le> y \<Longrightarrow> quantum x \<le> quantum y"
  unfolding quantum_def using ilog2_mono [of x y] by (intro powi2_mono) auto

lemma fl64_minus: "fl64 (- x) = - fl64 x"
  by (simp add: fl64_def rne_minus)

lemma fl64_nonneg: "0 \<le> x \<Longrightarrow> 0 \<le> fl64 x"
  using rne_mono [of 0 "x / quantum \<bar>x\<bar>"] rne_int [of 0]
  by (simp add: fl64_def less_imp_le [OF quantum_pos])

text \<open>Rounding never crosses a multiple of the quantum, so it never crosses a binade.\<close>

lemma fl64_le_multiple:
  assumes "0 < x" and "x \<le> of_int k * quantum x"
  shows "fl64 x \<le> of_int k * quantum x"
proof -
  have "x / quantum x \<le> of_int k" using assms by (simp add: pos_divide_le_eq)
  then have "rne (x / quantum x) \<le> k" using rne_mono rne_int by metis
  then show ?thesis using assms(1) by (simp add: fl64_def)
qed

lemma fl64_ge_multiple:
  assumes "0 < x" and "of_int k * quantum x \<le> x"
  shows "of_int k * quantum x \<le> fl64 x"
proof -
  have "of_int k \<le> x / quantum x" using assms by (simp add: pos_le_divide_eq)
  then have "k \<le> rne (x / quantum x)" using rne_mono rne_int by metis
  then show ?thesis using assms(1) by (simp add: fl64_def)
qed

lemma fl64_mono_pos:
  assumes "0 < x" and "x \<le> y"
  shows "fl64 x \<le> fl64 y"
proof (cases "quantum x = quantum y")
  case True
  have "rne (x / quantum x) \<le> rne (y / quantum x)"
    using assms(2) by (intro rne_mono divide_right_mono) (auto simp: less_imp_le)
  then show ?thesis using assms True by (simp add: fl64_def)
next
  case False
  let ?ex = "max (ilog2 x - 52) (- 1074)" and ?ey = "max (ilog2 y - 52) (- 1074)"
  have le: "ilog2 x \<le> ilog2 y" using assms by (rule ilog2_mono)
  have "?ex \<noteq> ?ey" using False by (auto simp: quantum_def)
  then have lt: "ilog2 x < ilog2 y" and big: "- 1074 < ilog2 y - 52"
    using le by linarith+
  obtain k where k: "(2::rat) powi ilog2 y = of_int k * quantum x"
    using powi2_multiple [of ?ex "ilog2 y"] lt big by (auto simp: quantum_def)
  have "x < 2 powi (ilog2 x + 1)" using assms(1) by (rule ilog2_bounds)
  also have "\<dots> \<le> 2 powi ilog2 y" using lt by (intro powi2_mono) simp
  finally have "fl64 x \<le> 2 powi ilog2 y"
    using fl64_le_multiple [OF assms(1), of k] k by simp
  moreover obtain l where l: "(2::rat) powi ilog2 y = of_int l * quantum y"
    using powi2_multiple [of ?ey "ilog2 y"] big by (auto simp: quantum_def)
  have "2 powi ilog2 y \<le> fl64 y"
    using fl64_ge_multiple [of y l] l ilog2_bounds(1) [of y] assms by simp
  ultimately show ?thesis by simp
qed

lemma fl64_mono: "x \<le> y \<Longrightarrow> fl64 x \<le> fl64 y"
proof (cases "0 < x \<or> y < 0")
  case True
  assume "x \<le> y"
  then show ?thesis
    using True fl64_mono_pos [of x y] fl64_mono_pos [of "- y" "- x"] fl64_minus by force
next
  case False
  then have "fl64 x \<le> 0" "0 \<le> fl64 y"
    using fl64_nonneg [of "- x"] fl64_nonneg [of y] by (auto simp: fl64_minus not_less)
  then show ?thesis by simp
qed

lemma fl64_int_pos:
  assumes "0 < z" and "z \<le> 2 ^ 52"
  shows "fl64 (of_int z) = of_int z"
proof -
  have "ilog2 (of_int z) < 53"
  proof -
    have "(2::rat) powi ilog2 (of_int z) \<le> of_int z"
      using assms(1) by (intro ilog2_bounds) simp
    also have "of_int z \<le> (2::rat) powi 52"
      using assms(2) by (metis of_int_le_iff of_int_numeral of_int_power power_int_of_nat of_nat_numeral)
    also have "\<dots> < 2 powi 53" by simp
    finally show ?thesis by (rule powi2_less_cancel)
  qed
  then have "max (ilog2 (of_int z) - 52) (- 1074) \<le> 0" by simp
  from powi2_multiple [OF this] obtain k where "1 = of_int k * quantum (of_int z)"
    by (auto simp: quantum_def)
  then have "1 / quantum (of_int z) = of_int k"
    by (metis nonzero_mult_div_cancel_right less_irrefl quantum_pos)
  then have "of_int z / quantum (of_int z) = of_int (z * k)"
    by (metis divide_inverse inverse_eq_divide of_int_mult)
  then have "of_int (rne (of_int z / quantum (of_int z))) = of_int z / quantum (of_int z)"
    by (metis rne_int)
  then show ?thesis using assms(1) by (simp add: fl64_def)
qed

lemma fl64_int: "\<bar>z\<bar> \<le> 2 ^ 52 \<Longrightarrow> fl64 (of_int z) = of_int z"
proof (cases "z = 0")
  case False
  assume "\<bar>z\<bar> \<le> 2 ^ 52"
  then show ?thesis
    using False fl64_int_pos [of z] fl64_int_pos [of "- z"] fl64_minus [of "of_int z"]
    by (cases "0 < z") auto
qed (simp add: fl64_def)

text \<open>A rounded value is a multiple of its own quantum, so rounding it again changes nothing.\<close>

lemma fl64_multiple:
  assumes "0 < y" and "y = of_int k * quantum y"
  shows "fl64 y = y"
proof -
  have "y / quantum y = of_int k" using assms(2) by (metis nonzero_mult_div_cancel_right quantum_nonzero)
  then show ?thesis using assms by (simp add: fl64_def)
qed

lemma fl64_idem_pos:
  assumes "0 < x"
  shows "fl64 (fl64 x) = fl64 x"
proof (cases "fl64 x = 0")
  case True
  then show ?thesis by (simp add: fl64_def)
next
  case False
  define y where "y = fl64 x"
  have y: "0 < y" using False fl64_nonneg [of x] assms by (simp add: y_def)
  have k: "y = of_int (rne (x / quantum x)) * quantum x" using assms by (simp add: y_def fl64_def)
  let ?ex = "max (ilog2 x - 52) (- 1074)" and ?ey = "max (ilog2 y - 52) (- 1074)"
  have "\<exists>l. y = of_int l * quantum y"
  proof (cases "?ey \<le> ?ex")
    case True
    then obtain m where "quantum x = of_int m * quantum y"
      using powi2_multiple [of ?ey ?ex] by (auto simp: quantum_def)
    then have "y = of_int (rne (x / quantum x) * m) * quantum y" using k by simp
    then show ?thesis ..
  next
    case False
    then have lt: "ilog2 x < ilog2 y" and big: "- 1074 < ilog2 y - 52" by linarith+
    obtain m where m: "(2::rat) powi ilog2 y = of_int m * quantum x"
      using powi2_multiple [of ?ex "ilog2 y"] lt big by (auto simp: quantum_def)
    have "x < 2 powi (ilog2 x + 1)" using assms by (rule ilog2_bounds)
    also have "\<dots> \<le> 2 powi ilog2 y" using lt by (intro powi2_mono) simp
    finally have "y \<le> 2 powi ilog2 y" using fl64_le_multiple [OF assms, of m] m by (simp add: y_def)
    then have "y = 2 powi ilog2 y" using ilog2_bounds(1) [OF y] by simp
    then show ?thesis using powi2_multiple [of ?ey "ilog2 y"] big by (auto simp: quantum_def)
  qed
  then show ?thesis using fl64_multiple [OF y] by (auto simp: y_def)
qed

lemma fl64_idem: "fl64 (fl64 x) = fl64 x"
proof (cases x "0 :: rat" rule: linorder_cases)
  case less
  then show ?thesis using fl64_idem_pos [of "- x"] by (simp add: fl64_minus)
next
  case equal
  then show ?thesis by (simp add: fl64_def)
next
  case greater
  then show ?thesis by (rule fl64_idem_pos)
qed

interpretation binary64: float_rounding fl64
  by unfold_locales (fact fl64_mono, fact fl64_int, fact fl64_idem)

end
