(* ===== verification/Memory_Search.thy ===== *)
theory Memory_Search
  imports Memory_Postgres Float64
begin

text \<open>
  \<open>internal/memory/search.go\<close>: hybrid search over the persistent memories, a semantic and a
  keyword query whose results are fused by reciprocal ranks, filtered and cut into pages.
  Arguments stand for what the server and the embedder compute: \<open>embedding_of\<close> the embedding of a
  text, \<open>cdist\<close> the cosine distance (\<open>None\<close> is NaN, the distance to a zero vector), \<open>tsmatch\<close> and
  \<open>rank\<close> the full-text match and its rank, and \<open>iter\<close> the order in which a Go map is iterated.
\<close>

section \<open>The two queries\<close>

record scoredMemory =
  sm_memory :: Memory
  sm_semanticScore :: "rat option"
  sm_keywordScore :: "rat option"
  sm_rrfScore :: rat

definition needsSemantic :: "MemoryType list \<Rightarrow> bool" where
  "needsSemantic types = (if length types = 0 then True else \<exists>t \<in> set types. t = Semantic \<or> t = Episodic)"

definition query_types :: "SearchQuery \<Rightarrow> string list" where
  "query_types query = (if length (sq_Types query) = 0 then persistent_types else sq_Types query)"

definition query_namespaces :: "SearchQuery \<Rightarrow> string list" where
  "query_namespaces query = (if length (sq_Namespaces query) = 0 then [''*''] else sq_Namespaces query)"

definition in_scope :: "SearchQuery \<Rightarrow> Memory \<Rightarrow> bool" where
  "in_scope query m \<longleftrightarrow>
     live_row m \<and> m_Type m \<in> set (query_types query) \<and> m_Namespace m \<in> set (query_namespaces query)"

text \<open>The columns read: the metadata is read but not decoded, the rest keeps zero values.\<close>

definition found :: "Memory \<Rightarrow> Memory" where
  "found m = m\<lparr>m_Embedding := [], m_Metadata := no_metadata, m_ValidFrom := None, m_ValidUntil := None,
     m_DistilledFrom := None, m_DeletedAt := None\<rparr>"

text \<open>\<open>ORDER BY embedding <=> $1\<close>, where NaN comes last.\<close>

definition by_distance :: "(Memory \<Rightarrow> rat option) \<Rightarrow> Memory list \<Rightarrow> Memory list" where
  "by_distance d rows =
     sort_key (\<lambda>m. the (d m)) (filter (\<lambda>m. d m \<noteq> None) rows) @ filter (\<lambda>m. d m = None) rows"

text \<open>
  A query vector without components is refused (22000), one of another length than the column's
  as soon as it is compared with a row.
\<close>

definition select_semantic ::
  "(rat list \<Rightarrow> rat list \<Rightarrow> rat option) \<Rightarrow> SearchQuery \<Rightarrow> rat list \<Rightarrow> scoredMemory list sql" where
  "select_semantic cdist query embedding d =
     (let rows = filter (\<lambda>m. in_scope query m \<and> m_Embedding m \<noteq> []) (t_memories d);
          d1 = (\<lambda>m. cdist (m_Embedding m) embedding)
      in if length embedding = 0 then Inl (PgError ''22000'')
         else if length embedding \<noteq> 1536 \<and> rows \<noteq> [] then Inl (PgError ''22000'')
         else (case page (mul64 (sq_Limit query) 3) 0 (by_distance d1 rows) of
                 Inl e \<Rightarrow> Inl e
               | Inr ms \<Rightarrow> Inr (map (\<lambda>m. \<lparr>sm_memory = found m,
                   sm_semanticScore = map_option (\<lambda>x. 1 - x) (d1 m), sm_keywordScore = Some 0,
                   sm_rrfScore = 0\<rparr>) ms, d)))"

definition select_keyword ::
  "(string \<Rightarrow> bytes \<Rightarrow> bool) \<Rightarrow> (string \<Rightarrow> bytes \<Rightarrow> rat) \<Rightarrow> SearchQuery \<Rightarrow> scoredMemory list sql" where
  "select_keyword tsmatch rank query d =
     (let rows = filter (\<lambda>m. in_scope query m \<and> tsmatch (sq_Query query) (m_Content m)) (t_memories d);
          r = (\<lambda>m. rank (sq_Query query) (m_Content m))
      in case page (mul64 (sq_Limit query) 3) 0 (sort_key (\<lambda>m. - r m) rows) of
           Inl e \<Rightarrow> Inl e
         | Inr ms \<Rightarrow> Inr (map (\<lambda>m. \<lparr>sm_memory = found m, sm_semanticScore = Some 0,
             sm_keywordScore = Some (r m), sm_rrfScore = 0\<rparr>) ms, d))"

section \<open>Fusion, filters and pages\<close>

definition sm_id :: "scoredMemory \<Rightarrow> uuid" where
  "sm_id sm = m_ID (sm_memory sm)"

definition zero_memory :: Memory where
  "zero_memory = \<lparr>m_ID = uuid_Nil, m_Type = [], m_Namespace = [], m_AgentDID = [], m_Content = [],
     m_Embedding = [], m_Metadata = no_metadata, m_ValidFrom = None, m_ValidUntil = None,
     m_DistilledFrom = None, m_CreatedAt = zero_time, m_UpdatedAt = zero_time, m_DeletedAt = None\<rparr>"

text \<open>The map from identifiers to ranks: the last assignment to a key stays.\<close>

definition ranks :: "scoredMemory list \<Rightarrow> uuid \<Rightarrow> nat option" where
  "ranks sms = map_of (rev (zip (map sm_id sms) [1..<Suc (length sms)]))"

definition rank_term :: "(rat \<Rightarrow> rat) \<Rightarrow> nat option \<Rightarrow> rat \<Rightarrow> rat" where
  "rank_term fl r score =
     (case r of None \<Rightarrow> score | Some n \<Rightarrow> fl (score + fl (1 / fl (60 + of_nat n))))"

definition rrf_score :: "(rat \<Rightarrow> rat) \<Rightarrow> scoredMemory list \<Rightarrow> scoredMemory list \<Rightarrow> uuid \<Rightarrow> rat" where
  "rrf_score fl semantic keyword i = rank_term fl (ranks keyword i) (rank_term fl (ranks semantic i) 0)"

definition fused_memory :: "scoredMemory list \<Rightarrow> scoredMemory list \<Rightarrow> uuid \<Rightarrow> Memory" where
  "fused_memory semantic keyword i =
     (let mem = (case find (\<lambda>sm. sm_id sm = i) semantic of None \<Rightarrow> zero_memory | Some sm \<Rightarrow> sm_memory sm)
      in if m_ID mem = uuid_Nil
         then (case find (\<lambda>sm. sm_id sm = i) keyword of None \<Rightarrow> mem | Some sm \<Rightarrow> sm_memory sm)
         else mem)"

definition fused_entry :: "scoredMemory list \<Rightarrow> scoredMemory list \<Rightarrow> uuid \<Rightarrow> scoredMemory" where
  "fused_entry semantic keyword i =
     \<lparr>sm_memory = fused_memory semantic keyword i, sm_semanticScore = Some 0, sm_keywordScore = Some 0,
      sm_rrfScore = rrf_score fl64 semantic keyword i\<rparr>"

text \<open>
  \<open>iter ids\<close> is the set of identifiers in the order of iteration. \<open>sort.Slice\<close> need not be stable,
  which that order, being arbitrary, accounts for.
\<close>

definition reciprocalRankFusion ::
  "(uuid list \<Rightarrow> uuid list) \<Rightarrow> scoredMemory list \<Rightarrow> scoredMemory list \<Rightarrow> scoredMemory list" where
  "reciprocalRankFusion iter semantic keyword =
     (let allIDs = remdups (map sm_id semantic @ map sm_id keyword);
          merged = map (fused_entry semantic keyword) (iter allIDs)
      in sort_key (\<lambda>sm. - sm_rrfScore sm) merged)"

definition passes :: "FilterSet \<Rightarrow> Memory \<Rightarrow> bool" where
  "passes filters m \<longleftrightarrow>
     \<not> (0 < length (fs_Tags filters) \<and> \<not> (\<exists>tag \<in> set (fs_Tags filters). tag \<in> set (md_Tags (m_Metadata m)))) \<and>
     \<not> (0 < fs_ConfidenceMin filters \<and> md_Confidence (m_Metadata m) < fs_ConfidenceMin filters) \<and>
     \<not> (0 < fs_ConfidenceMax filters \<and> fs_ConfidenceMax filters < md_Confidence (m_Metadata m)) \<and>
     (case fs_CreatedAfter filters of None \<Rightarrow> True | Some t \<Rightarrow> \<not> m_CreatedAt m < t) \<and>
     (case fs_CreatedBefore filters of None \<Rightarrow> True | Some t \<Rightarrow> \<not> t < m_CreatedAt m) \<and>
     \<not> (fs_HasAttestation filters \<and> length (md_Attestations (m_Metadata m)) = 0)"

definition applyFilters :: "scoredMemory list \<Rightarrow> FilterSet \<Rightarrow> scoredMemory list" where
  "applyFilters results filters = filter (\<lambda>sm. passes filters (sm_memory sm)) results"

text \<open>\<open>xs[a:b]\<close>; \<open>None\<close> is the panic on bounds that are negative or out of order.\<close>

definition slice :: "int \<Rightarrow> int \<Rightarrow> 'a list \<Rightarrow> 'a list option" where
  "slice a b xs =
     (if 0 \<le> a \<and> a \<le> b \<and> b \<le> int (length xs) then Some (take (nat b - nat a) (drop (nat a) xs)) else None)"

definition page_bounds :: "int \<Rightarrow> int \<Rightarrow> int \<Rightarrow> int \<times> int" where
  "page_bounds offset limit n =
     (let stop = (if add64 offset limit < n then add64 offset limit else n);
          start = (if offset > n then n else offset)
      in (start, stop))"

text \<open>A panic is represented by this value; the theorems show when it does not occur.\<close>

definition slice_panic :: error where
  "slice_panic = Plain ''runtime error: slice bounds out of range''"

section \<open>Search\<close>

definition page_result :: "SearchQuery \<Rightarrow> scoredMemory list \<Rightarrow> ('s, SearchResult) proc" where
  "page_result query filtered =
     (let n = int (length filtered);
          (start, stop) = page_bounds (sq_Offset query) (sq_Limit query) n
      in case slice start stop filtered of
           None \<Rightarrow> fail slice_panic
         | Some sms \<Rightarrow>
             ret \<lparr>res_Results = map sm_memory sms, res_Total = n, res_Limit = sq_Limit query,
                  res_Offset = sq_Offset query\<rparr>)"

definition Search ::
  "(string \<Rightarrow> error + rat list) \<Rightarrow> (rat list \<Rightarrow> rat list \<Rightarrow> rat option) \<Rightarrow> (string \<Rightarrow> bytes \<Rightarrow> bool) \<Rightarrow>
     (string \<Rightarrow> bytes \<Rightarrow> rat) \<Rightarrow> (uuid list \<Rightarrow> uuid list) \<Rightarrow> SearchQuery \<Rightarrow> (conn, SearchResult) proc" where
  "Search embedding_of cdist tsmatch rank iter query =
     (case (if needsSemantic (sq_Types query) then embedding_of (sq_Query query) else Inr []) of
        Inl e \<Rightarrow> fail (Wrap ''generate embedding'' e)
      | Inr queryEmbedding \<Rightarrow>
          attempt (db_stmt (select_semantic cdist query queryEmbedding)) (Wrap ''semantic search'') (\<lambda>semantic.
          attempt (db_stmt (select_keyword tsmatch rank query)) (Wrap ''keyword search'') (\<lambda>keyword.
          page_result query (applyFilters (reciprocalRankFusion iter semantic keyword) (sq_Filters query)))))"

text \<open>The embedding function \<open>NewHybridSearcher\<close> puts in when it is given none.\<close>

definition placeholder_embedding :: "string \<Rightarrow> error + rat list" where
  "placeholder_embedding text = Inr (replicate 1536 0)"

section \<open>Ranks and scores\<close>

lemma ranks_nth:
  assumes "distinct (map sm_id sms)" and "n < length sms"
  shows "ranks sms (sm_id (sms ! n)) = Some (Suc n)"
proof -
  have d: "distinct (map fst (rev (zip (map sm_id sms) [1..<Suc (length sms)])))"
    using assms(1) by (simp add: rev_map [symmetric] del: upt_Suc)
  have "(sm_id (sms ! n), Suc n) \<in> set (rev (zip (map sm_id sms) [1..<Suc (length sms)]))"
    using assms(2) by (auto simp: in_set_zip simp del: upt_Suc intro!: exI [of _ n])
  then show ?thesis unfolding ranks_def using d by (simp add: map_of_eq_Some_iff del: upt_Suc)
qed

lemma ranks_None_iff: "ranks sms i = None \<longleftrightarrow> i \<notin> sm_id ` set sms"
proof -
  have "fst ` set (zip (map sm_id sms) [1..<Suc (length sms)]) = set (map fst (zip (map sm_id sms) [1..<Suc (length sms)]))"
    by (simp only: set_map)
  also have "\<dots> = sm_id ` set sms" by (subst map_fst_zip) (simp_all del: upt_Suc)
  finally show ?thesis by (simp add: ranks_def map_of_eq_None_iff del: upt_Suc)
qed

text \<open>The order of ranks: being found at all, and earlier, is better.\<close>

fun rank_le :: "nat option \<Rightarrow> nat option \<Rightarrow> bool" where
  "rank_le None r = True"
| "rank_le (Some n) None = False"
| "rank_le (Some n) (Some m) = (m \<le> n)"

context float_rounding
begin

lemma rank_step_pos: "0 \<le> fl (1 / fl (60 + of_nat n))"
  by (intro fl_nonneg divide_nonneg_nonneg) (auto intro: fl_nonneg)

lemma rank_step_antimono:
  assumes "m \<le> n"
  shows "fl (1 / fl (60 + of_nat n)) \<le> fl (1 / fl (60 + of_nat m))"
proof -
  have "of_int 60 \<le> fl (60 + of_nat m)" by (rule fl_ge_int) auto
  then have "0 < fl (60 + of_nat m)" by simp
  moreover have "fl (60 + of_nat m) \<le> fl (60 + of_nat n)" using assms by (intro fl_mono) simp
  ultimately show ?thesis by (intro fl_mono [of "1 / fl (60 + of_nat n)"] divide_left_mono) simp_all
qed

lemma rank_term_mono:
  assumes "rank_le r q" and "a \<le> b" and "fl a = a" and "fl b = b"
  shows "rank_term fl r a \<le> rank_term fl q b"
proof (cases q)
  case None
  then show ?thesis using assms by (cases r) (auto simp: rank_term_def)
next
  case (Some m)
  show ?thesis
  proof (cases r)
    case None
    have "fl a \<le> fl (b + fl (1 / fl (60 + of_nat m)))"
      using assms(2) rank_step_pos [of m] by (intro fl_mono) linarith
    then show ?thesis using None Some assms(3) by (simp add: rank_term_def)
  next
    case (Some n)
    then show ?thesis
      using assms \<open>q = Some m\<close> rank_step_antimono [of m n]
      by (auto simp: rank_term_def intro!: fl_mono add_mono)
  qed
qed

lemma rank_term_fixed: "fl a = a \<Longrightarrow> fl (rank_term fl r a) = rank_term fl r a"
  by (cases r) (simp_all add: rank_term_def fl_idem)

lemma rrf_score_mono:
  assumes "rank_le (ranks semantic i) (ranks semantic j)" and "rank_le (ranks keyword i) (ranks keyword j)"
  shows "rrf_score fl semantic keyword i \<le> rrf_score fl semantic keyword j"
  unfolding rrf_score_def using assms
  by (intro rank_term_mono rank_term_fixed) (simp_all add: fl_zero)

end

section \<open>Properties of the fusion\<close>

lemma fused_memory_id:
  assumes "i \<in> sm_id ` set semantic \<union> sm_id ` set keyword"
  shows "m_ID (fused_memory semantic keyword i) = i"
proof -
  have f: "(\<exists>sm. find (\<lambda>sm. sm_id sm = i) xs = Some sm) \<longleftrightarrow> i \<in> sm_id ` set xs" for xs :: "scoredMemory list"
    by (induction xs) auto
  have h: "m_ID (sm_memory sm) = i" if "find (\<lambda>sm. sm_id sm = i) xs = Some sm" for sm and xs :: "scoredMemory list"
    using find_holds [OF that] by (simp add: sm_id_def)
  show ?thesis
  proof (cases "find (\<lambda>sm. sm_id sm = i) semantic")
    case None
    then have "i \<in> sm_id ` set keyword" using assms f [of semantic] by auto
    then obtain sm where "find (\<lambda>sm. sm_id sm = i) keyword = Some sm" using f by blast
    then show ?thesis using None h [of keyword sm] by (simp add: fused_memory_def zero_memory_def Let_def)
  next
    case (Some sm)
    then show ?thesis
      using h [OF Some] h [of keyword]
      by (cases "find (\<lambda>sm. sm_id sm = i) keyword") (auto simp: fused_memory_def Let_def)
  qed
qed

lemma fused_entry_id:
  "i \<in> sm_id ` set semantic \<union> sm_id ` set keyword \<Longrightarrow> sm_id (fused_entry semantic keyword i) = i"
  using fused_memory_id by (simp add: fused_entry_def sm_id_def)

lemma fused_entries:
  assumes iter: "\<And>ids. distinct ids \<Longrightarrow> mset (iter ids) = mset ids"
  shows fused_set: "set (reciprocalRankFusion iter semantic keyword) =
      fused_entry semantic keyword ` (sm_id ` set semantic \<union> sm_id ` set keyword)"
    and fused_distinct: "distinct (map sm_id (reciprocalRankFusion iter semantic keyword))"
proof -
  let ?entry = "fused_entry semantic keyword"
  define ids where "ids = remdups (map sm_id semantic @ map sm_id keyword)"
  define out where "out = reciprocalRankFusion iter semantic keyword"
  have out: "out = sort_key (\<lambda>sm. - sm_rrfScore sm) (map ?entry (iter ids))"
    by (simp add: out_def reciprocalRankFusion_def Let_def ids_def)
  have m: "mset (iter ids) = mset ids" by (rule iter) (simp add: ids_def)
  then have set_ids: "set (iter ids) = sm_id ` set semantic \<union> sm_id ` set keyword"
    by (metis ids_def list.set_map set_append set_mset_mset set_remdups)
  show "set (reciprocalRankFusion iter semantic keyword) = ?entry ` (sm_id ` set semantic \<union> sm_id ` set keyword)"
    unfolding out_def [symmetric] out by (simp add: set_ids)
  have "mset (map sm_id out) = mset (map sm_id (map ?entry (iter ids)))"
    by (simp add: out multiset.map_comp)
  also have "map sm_id (map ?entry (iter ids)) = iter ids" unfolding map_map by (rule map_idI) (simp add: set_ids fused_entry_id)
  finally have "mset (map sm_id out) = mset ids" using m by simp
  then show "distinct (map sm_id (reciprocalRankFusion iter semantic keyword))"
    by (metis distinct_remdups ids_def mset_eq_imp_distinct_iff out_def)
qed

lemma fused_sorted:
  "sorted_wrt (\<lambda>x y. sm_rrfScore y \<le> sm_rrfScore x) (reciprocalRankFusion iter semantic keyword)"
  using sorted_sort_key [of "\<lambda>sm. - sm_rrfScore sm"]
  by (simp add: reciprocalRankFusion_def Let_def sorted_map)

text \<open>
  C36: reciprocal rank fusion. Whatever the order in which the map of identifiers is iterated,
  the fused list holds every memory that one of the two searches found exactly once, with the
  score of its ranks, highest score first; and the floating-point score respects the ranks: a
  memory that is found by both searches no later than another, or found where the other is
  not, has a score at least as high.
\<close>

theorem fusion_ranks:
  assumes iter: "\<And>ids. distinct ids \<Longrightarrow> mset (iter ids) = mset ids"
  shows "distinct (map sm_id (reciprocalRankFusion iter semantic keyword)) \<and>
    sm_id ` set (reciprocalRankFusion iter semantic keyword) = sm_id ` set semantic \<union> sm_id ` set keyword \<and>
    sorted_wrt (\<lambda>x y. sm_rrfScore y \<le> sm_rrfScore x) (reciprocalRankFusion iter semantic keyword) \<and>
    (\<forall>sm \<in> set (reciprocalRankFusion iter semantic keyword).
       sm_rrfScore sm = rrf_score fl64 semantic keyword (sm_id sm)) \<and>
    (rank_le (ranks semantic i) (ranks semantic j) \<and> rank_le (ranks keyword i) (ranks keyword j) \<longrightarrow>
       rrf_score fl64 semantic keyword i \<le> rrf_score fl64 semantic keyword j)"
proof -
  let ?ids = "sm_id ` set semantic \<union> sm_id ` set keyword"
  have E: "set (reciprocalRankFusion iter semantic keyword) = fused_entry semantic keyword ` ?ids"
    by (rule fused_set [OF iter])
  have "sm_id ` fused_entry semantic keyword ` ?ids = ?ids"
  proof
    show "sm_id ` fused_entry semantic keyword ` ?ids \<subseteq> ?ids"
      unfolding image_image by (rule image_subsetI) (simp only: fused_entry_id)
    show "?ids \<subseteq> sm_id ` fused_entry semantic keyword ` ?ids"
    proof
      fix i
      assume i: "i \<in> ?ids"
      then have "sm_id (fused_entry semantic keyword i) \<in> sm_id ` fused_entry semantic keyword ` ?ids" by (intro imageI)
      then show "i \<in> sm_id ` fused_entry semantic keyword ` ?ids" by (simp only: fused_entry_id [OF i])
    qed
  qed
  then have 1: "sm_id ` set (reciprocalRankFusion iter semantic keyword) = ?ids"
    by (simp only: E)
  have 2: "\<forall>sm \<in> set (reciprocalRankFusion iter semantic keyword).
      sm_rrfScore sm = rrf_score fl64 semantic keyword (sm_id sm)"
  proof
    fix sm
    assume "sm \<in> set (reciprocalRankFusion iter semantic keyword)"
    then obtain i where "i \<in> ?ids" and sm: "sm = fused_entry semantic keyword i" unfolding E by (rule imageE)
    then have "sm_id sm = i" using fused_entry_id by blast
    then show "sm_rrfScore sm = rrf_score fl64 semantic keyword (sm_id sm)" by (simp add: sm fused_entry_def)
  qed
  show ?thesis
    using fused_distinct [OF iter] fused_sorted 1 2 binary64.rrf_score_mono [of semantic i j keyword] by blast
qed

lemma distinct_singleton_list: "distinct xs \<Longrightarrow> set xs = {a} \<Longrightarrow> xs = [a]"
  by (cases xs; cases "tl xs") auto

definition sample_scored :: "uuid \<Rightarrow> scoredMemory" where
  "sample_scored i = \<lparr>sm_memory = sample_memory i None, sm_semanticScore = None, sm_keywordScore = None, sm_rrfScore = 0\<rparr>"

theorem fusion_ranks_witness:
  "map sm_id (reciprocalRankFusion rev [sample_scored ''a''] []) = [''a''] \<and>
   rrf_score fl64 [sample_scored ''a'', sample_scored ''b''] [] ''b'' \<le>
     rrf_score fl64 [sample_scored ''a'', sample_scored ''b''] [] ''a''"
proof
  have "set (map sm_id (reciprocalRankFusion rev [sample_scored ''a''] [])) = {''a''}"
    "distinct (map sm_id (reciprocalRankFusion rev [sample_scored ''a''] []))"
    using fusion_ranks [of rev "[sample_scored ''a'']" "[]"]
    by (simp_all add: sample_scored_def sm_id_def sample_memory_def)
  then show "map sm_id (reciprocalRankFusion rev [sample_scored ''a''] []) = [''a'']"
    by (simp only: distinct_singleton_list)
  show "rrf_score fl64 [sample_scored ''a'', sample_scored ''b''] [] ''b'' \<le>
     rrf_score fl64 [sample_scored ''a'', sample_scored ''b''] [] ''a''"
    using fusion_ranks [of rev "[sample_scored ''a'', sample_scored ''b'']" "[]" "''b''" "''a''"]
    by (simp add: ranks_def sample_scored_def sm_id_def sample_memory_def)
qed

section \<open>Properties of the search\<close>

lemma slice_in: "slice a b xs = Some ys \<Longrightarrow> set ys \<subseteq> set xs \<and> int (length ys) \<le> b - a"
  by (auto simp: slice_def dest!: in_set_takeD in_set_dropD split: if_splits)

lemma select_semantic_found:
  "select_semantic cdist query v d = Inr (sms, d') \<Longrightarrow>
     d' = d \<and> sm_memory ` set sms \<subseteq> found ` {r \<in> set (t_memories d). in_scope query r}"
  by (auto simp: select_semantic_def Let_def page_def by_distance_def split: if_splits
      dest!: in_set_takeD)

lemma select_keyword_found:
  "select_keyword tsmatch rank query d = Inr (sms, d') \<Longrightarrow>
     d' = d \<and> sm_memory ` set sms \<subseteq> found ` {r \<in> set (t_memories d). in_scope query r}"
  by (auto simp: select_keyword_def Let_def page_def split: if_splits dest!: in_set_takeD)


lemma reciprocalRankFusion_members:
  assumes iter: "\<And>ids. distinct ids \<Longrightarrow> set (iter ids) = set ids"
    and "sm_memory ` set semantic \<subseteq> S" and "sm_memory ` set keyword \<subseteq> S"
  shows "sm_memory ` set (reciprocalRankFusion iter semantic keyword) \<subseteq> S"
proof -
  define ids where "ids = remdups (map sm_id semantic @ map sm_id keyword)"
  have ids: "set (iter ids) = sm_id ` set semantic \<union> sm_id ` set keyword"
    using iter [of ids] by (simp add: ids_def)
  have mem: "sm_memory sm \<in> S" if "find P xs = Some sm" "sm_memory ` set xs \<subseteq> S" for P xs sm
    using that by (induction xs) (auto split: if_splits)
  have f: "i \<in> sm_id ` set xs \<Longrightarrow> \<exists>sm. find (\<lambda>sm. sm_id sm = i) xs = Some sm" for i and xs :: "scoredMemory list"
    by (induction xs) auto
  have "fused_memory semantic keyword i \<in> S" if "i \<in> set (iter ids)" for i
  proof (cases "find (\<lambda>sm. sm_id sm = i) semantic")
    case None
    then have "i \<in> sm_id ` set keyword" using that ids f [of i semantic] by auto
    then obtain sm where "find (\<lambda>sm. sm_id sm = i) keyword = Some sm" using f by blast
    then show ?thesis using None mem [OF _ assms(3)] by (simp add: fused_memory_def zero_memory_def Let_def)
  next
    case (Some sm)
    then show ?thesis
      using mem [OF Some assms(2)] mem [OF _ assms(3)]
      by (cases "find (\<lambda>sm. sm_id sm = i) keyword") (auto simp: fused_memory_def Let_def)
  qed
  then show ?thesis
    by (auto simp: reciprocalRankFusion_def Let_def ids_def [symmetric] fused_entry_def)
qed

lemma page_result_run:
  "page_result query xs s =
     (case slice (fst (page_bounds (sq_Offset query) (sq_Limit query) (int (length xs))))
             (snd (page_bounds (sq_Offset query) (sq_Limit query) (int (length xs)))) xs of
        None \<Rightarrow> (Inl slice_panic, s)
      | Some sms \<Rightarrow> (Inr \<lparr>res_Results = map sm_memory sms, res_Total = int (length xs), res_Limit = sq_Limit query,
          res_Offset = sq_Offset query\<rparr>, s))"
  by (simp add: page_result_def Let_def case_prod_beta fail_def ret_def split: option.splits)

text \<open>What a search did: an error of a part, or the page of the filtered fusion of the two lists.\<close>

lemma Search_run:
  assumes "Search embedding_of cdist tsmatch rank iter query c = (r, c')"
  obtains (failed) e w where "r = Inl (Wrap w e)" and "c_db c' = c_db c"
  | (found) semantic keyword v t where
      "select_semantic cdist query v (c_db c) = Inr (semantic, c_db c)"
      "select_keyword tsmatch rank query (c_db c) = Inr (keyword, c_db c)" "c_db c' = c_db c"
      "page_result query (applyFilters (reciprocalRankFusion iter semantic keyword) (sq_Filters query)) t = (r, c')"
proof (cases "if needsSemantic (sq_Types query) then embedding_of (sq_Query query) else Inr []")
  case (Inl e)
  then show thesis using assms by (auto simp: Search_def fail_def intro: failed)
next
  case (Inr v)
  obtain q1 c1 where 1: "db_stmt (select_semantic cdist query v) c = (q1, c1)" by fastforce
  then have d1: "c_db c1 = c_db c" using db_stmt_cases [OF 1] by (auto dest: select_semantic_found)
  show thesis
  proof (cases q1)
    case Inl
    then show thesis using assms 1 d1 Inr by (auto simp: Search_def attempt_def intro: failed)
  next
    case semantic: (Inr semantic)
    obtain q2 c2 where 2: "db_stmt (select_keyword tsmatch rank query) c1 = (q2, c2)" by fastforce
    then have d2: "c_db c2 = c_db c" using db_stmt_cases [OF 2] d1 by (auto dest: select_keyword_found)
    show thesis
    proof (cases q2)
      case Inl
      then show thesis using assms 1 2 d2 Inr semantic by (auto simp: Search_def attempt_def intro: failed)
    next
      case keyword: (Inr keyword)
      have run: "page_result query (applyFilters (reciprocalRankFusion iter semantic keyword) (sq_Filters query)) c2 = (r, c')"
        using assms 1 2 Inr semantic keyword by (simp add: Search_def attempt_def)
      then have "c' = c2" by (auto simp: page_result_run split: option.splits)
      then show thesis
        using found [OF _ _ _ run, of v] d1 d2 db_stmt_InrD [OF 1 [unfolded semantic]] db_stmt_InrD [OF 2 [unfolded keyword]]
        by simp
    qed
  qed
qed

lemma slice_page:
  assumes "0 \<le> offset" and "0 \<le> limit" and "int64 (offset + limit)"
  shows "slice (fst (page_bounds offset limit (int (length xs)))) (snd (page_bounds offset limit (int (length xs)))) xs =
    Some (take (nat limit) (drop (nat offset) xs))"
  using assms by (auto simp: slice_def page_bounds_def Let_def add64_exact nat_add_distrib)

lemma slice_negative: "offset < 0 \<Longrightarrow> slice (fst (page_bounds offset limit (int n))) b xs = None"
  by (simp add: slice_def page_bounds_def Let_def)

lemma passes_found_metadata:
  "passes filters (found m) \<Longrightarrow>
     fs_Tags filters = [] \<and> fs_ConfidenceMin filters \<le> 0 \<and> \<not> fs_HasAttestation filters"
  by (auto simp: passes_def found_def no_metadata_def)

text \<open>A page of the filtered fusion of the two lists.\<close>

lemma page_sound:
  assumes iter: "\<And>ids. distinct ids \<Longrightarrow> mset (iter ids) = mset ids"
    and semantic: "select_semantic cdist query v d = Inr (semantic, d)"
    and keyword: "select_keyword tsmatch rank query d = Inr (keyword, d)"
    and sms: "sms = take n (drop k (applyFilters (reciprocalRankFusion iter semantic keyword) filters))"
  shows "length sms \<le> n" and "distinct (map m_ID (map sm_memory sms))"
    and "set (map sm_memory sms) \<subseteq> found ` {m \<in> set (t_memories d). in_scope query m}"
    and "\<forall>m \<in> set (map sm_memory sms). passes filters m"
proof -
  let ?f = "applyFilters (reciprocalRankFusion iter semantic keyword) filters"
  let ?rows = "found ` {m \<in> set (t_memories d). in_scope query m}"
  show "length sms \<le> n" by (simp add: sms)
  have sub: "set sms \<subseteq> set ?f" by (auto simp: sms dest: in_set_takeD in_set_dropD)
  have set_iter: "set (iter ids) = set ids" if "distinct ids" for ids
    using iter [OF that] by (metis set_mset_mset)
  have "sm_memory ` set (reciprocalRankFusion iter semantic keyword) \<subseteq> ?rows"
    using select_semantic_found [OF semantic] select_keyword_found [OF keyword]
    by (intro reciprocalRankFusion_members [OF set_iter]) auto
  then show "set (map sm_memory sms) \<subseteq> ?rows" using sub by (auto simp: applyFilters_def)
  show "\<forall>m \<in> set (map sm_memory sms). passes filters m" using sub by (auto simp: applyFilters_def)
  have "distinct (map sm_id (reciprocalRankFusion iter semantic keyword))"
    by (rule fused_distinct [OF iter])
  then have "distinct (map sm_id ?f)" by (simp add: applyFilters_def distinct_map_filter)
  then have "distinct (map sm_id sms)" unfolding sms take_map [symmetric] drop_map [symmetric]
    by (intro distinct_take distinct_drop)
  then show "distinct (map m_ID (map sm_memory sms))" by (simp add: sm_id_def [abs_def] comp_def)
qed

lemma no_metadata_filters:
  assumes "set ms \<subseteq> found ` R" and "\<forall>m \<in> set ms. passes filters m"
    and "fs_Tags filters \<noteq> [] \<or> fs_HasAttestation filters \<or> 0 < fs_ConfidenceMin filters"
  shows "ms = []"
proof (rule ccontr)
  assume "ms \<noteq> []"
  then obtain m where m: "m \<in> set ms" by (cases ms) auto
  then obtain m' where "m = found m'" using assms(1) by blast
  then show False using passes_found_metadata [of filters m'] assms(2,3) m by auto
qed

lemma no_namespace_scope:
  "set ms \<subseteq> found ` {m \<in> R. in_scope query m} \<Longrightarrow> sq_Namespaces query = [] \<Longrightarrow>
     \<forall>m \<in> set ms. m_Namespace m = ''*''"
  by (auto simp: in_scope_def query_namespaces_def found_def)

text \<open>A search within bounds does not panic, and its page is within the limit.\<close>

lemma Search_bounds:
  assumes bound: "0 \<le> sq_Offset query" "0 \<le> sq_Limit query" "int64 (sq_Offset query + sq_Limit query)"
    and run: "Search embedding_of cdist tsmatch rank iter query c = (r, c')"
  shows "c_db c' = c_db c" and "r \<noteq> Inl slice_panic"
    and "r = Inr res \<Longrightarrow> int (length (res_Results res)) \<le> sq_Limit query"
proof -
  have "c_db c' = c_db c \<and> r \<noteq> Inl slice_panic \<and>
      (\<forall>res. r = Inr res \<longrightarrow> int (length (res_Results res)) \<le> sq_Limit query)"
    using run
  proof (cases rule: Search_run)
    case (failed e w)
    then show ?thesis by (simp add: slice_panic_def)
  next
    case (found semantic keyword v t)
    show ?thesis
      using found(4) [unfolded page_result_run slice_page [OF bound]] found(3) bound(2) by auto
  qed
  then show "c_db c' = c_db c" and "r \<noteq> Inl slice_panic"
    and "r = Inr res \<Longrightarrow> int (length (res_Results res)) \<le> sq_Limit query"
    by blast+
qed

text \<open>
  C17: what a search returns. It changes no stored data. For a non-negative offset and limit
  whose sum does not overflow it never panics, and for a negative offset it never succeeds. A
  successful search returns at most as many memories as the limit, no two with the same
  identifier, each of them a readable row of the table, of a requested type and namespace, as
  it was stored (but for the columns that are not read), and each accepted by the filters.
  Without a namespace in the query only rows of a namespace named \<open>*\<close> can be returned. With a
  filter on tags, on attestations or on a least confidence nothing is returned, since the
  metadata that was read is not decoded.
\<close>

theorem Search_sound:
  assumes iter: "\<And>ids. distinct ids \<Longrightarrow> mset (iter ids) = mset ids"
    and bound: "0 \<le> sq_Limit query" "int64 (sq_Offset query + sq_Limit query)"
    and run: "Search embedding_of cdist tsmatch rank iter query c = (r, c')"
  shows "c_db c' = c_db c \<and>
    (0 \<le> sq_Offset query \<longrightarrow> r \<noteq> Inl slice_panic) \<and>
    (\<forall>res. r = Inr res \<longrightarrow> 0 \<le> sq_Offset query \<and>
       int (length (res_Results res)) \<le> sq_Limit query \<and> distinct (map m_ID (res_Results res)) \<and>
       set (res_Results res) \<subseteq> found ` {m \<in> set (t_memories (c_db c)). in_scope query m} \<and>
       (\<forall>m \<in> set (res_Results res). passes (sq_Filters query) m) \<and>
       (sq_Namespaces query = [] \<longrightarrow> (\<forall>m \<in> set (res_Results res). m_Namespace m = ''*'')) \<and>
       (fs_Tags (sq_Filters query) \<noteq> [] \<or> fs_HasAttestation (sq_Filters query) \<or>
          0 < fs_ConfidenceMin (sq_Filters query) \<longrightarrow> res_Results res = []))"
  using run
proof (cases rule: Search_run)
  case (failed e w)
  then show ?thesis by (simp add: slice_panic_def)
next
  case (found semantic keyword v t)
  let ?f = "applyFilters (reciprocalRankFusion iter semantic keyword) (sq_Filters query)"
  let ?sms = "take (nat (sq_Limit query)) (drop (nat (sq_Offset query)) ?f)"
  note sound = page_sound [OF iter found(1,2) refl, of "nat (sq_Limit query)" "nat (sq_Offset query)" "sq_Filters query"]
  have neg: "r = Inl slice_panic" if "\<not> 0 \<le> sq_Offset query"
    using found(4) that by (simp add: page_result_run slice_negative)
  have ok: "r = Inr \<lparr>res_Results = map sm_memory ?sms, res_Total = int (length ?f), res_Limit = sq_Limit query,
      res_Offset = sq_Offset query\<rparr>" if "0 \<le> sq_Offset query"
    using found(4) by (simp add: page_result_run slice_page [OF that bound])
  show ?thesis
  proof (cases "0 \<le> sq_Offset query")
    case True
    then show ?thesis
      using found(3) sound(1) sound(2-4) bound no_metadata_filters [OF sound(3,4)] no_namespace_scope [OF sound(3)]
      unfolding ok [OF True] by (auto simp del: set_map)
  qed (simp add: neg found(3))
qed

definition sample_query :: "string list \<Rightarrow> int \<Rightarrow> SearchQuery" where
  "sample_query namespaces limit = \<lparr>sq_Query = ''q'', sq_Types = [], sq_Namespaces = namespaces, sq_AgentDID = [],
     sq_Limit = limit, sq_Offset = 0, sq_Filters = no_filters\<rparr>"

theorem Search_sound_witness:
  "\<exists>res c'. Search (\<lambda>_. Inr (replicate 1536 0)) (\<lambda>_ _. None) (\<lambda>_ _. True) (\<lambda>_ _. 1) rev (sample_query [''ns''] 10)
      (calm_conn (sample_db_memories [sample_memory ''m1'' None])) = (Inr res, c') \<and>
    c_db c' = sample_db_memories [sample_memory ''m1'' None] \<and> length (res_Results res) \<le> 10 \<and>
    set (res_Results res) \<subseteq> {found (sample_memory ''m1'' None)}"
proof -
  let ?c = "calm_conn (sample_db_memories [sample_memory ''m1'' None])"
  let ?run = "Search (\<lambda>_. Inr (replicate 1536 0)) (\<lambda>_ _. None) (\<lambda>_ _. True) (\<lambda>_ _. 1) rev (sample_query [''ns''] 10) ?c"
  have q: "0 \<le> sq_Limit (sample_query [''ns''] 10)" "sq_Offset (sample_query [''ns''] 10) = 0"
    "int64 (sq_Offset (sample_query [''ns''] 10) + sq_Limit (sample_query [''ns''] 10))"
    "mul64 (sq_Limit (sample_query [''ns''] 10)) 3 = 30"
    by (simp_all add: sample_query_def int64_def mul64_exact)
  obtain sem where sem: "select_semantic (\<lambda>_ _. None) (sample_query [''ns''] 10) (replicate 1536 0) (c_db ?c) = Inr (sem, c_db ?c)"
    unfolding select_semantic_def Let_def q by (simp add: page_def)
  obtain kw where kw: "select_keyword (\<lambda>_ _. True) (\<lambda>_ _. 1) (sample_query [''ns''] 10) (c_db ?c) = Inr (kw, c_db ?c)"
    unfolding select_keyword_def Let_def q by (simp add: page_def)
  have "\<exists>res c'. ?run = (Inr res, c')"
  proof (cases "?run")
    case (Pair r c')
    have "r \<noteq> Inl e" for e
    proof
      assume "r = Inl e"
      moreover have "needsSemantic (sq_Types (sample_query [''ns''] 10))"
        by (simp add: needsSemantic_def sample_query_def)
      ultimately have "e = slice_panic"
        using Pair sem kw by (auto simp: Search_def attempt_def page_result_run split: option.splits)
      then show False using Search_sound [OF _ q(1,3) Pair] q(2) \<open>r = Inl e\<close> by simp
    qed
    then show ?thesis using Pair by (cases r) auto
  qed
  then obtain res c' where run: "?run = (Inr res, c')" by blast
  have "c_db c' = c_db ?c" "int (length (res_Results res)) \<le> 10"
    "set (res_Results res) \<subseteq> found ` {m \<in> set (t_memories (c_db ?c)). in_scope (sample_query [''ns''] 10) m}"
    using Search_sound [OF _ q(1,3) run] by (simp_all add: sample_query_def)
  then show ?thesis using run by (fastforce simp: sample_db_memories_def)
qed

end
