(* ===== verification/Durations.thy ===== *)
theory Durations
  imports Float64 Prelude
begin

text \<open>
  \<open>time.Duration\<close>: nanoseconds in 64 bits. Differences of instants saturate, and the conversions
  to hours and seconds go through floating-point numbers.
\<close>

definition trunc_div :: "int \<Rightarrow> int \<Rightarrow> int" where
  "trunc_div a b = sgn a * sgn b * (\<bar>a\<bar> div \<bar>b\<bar>)"

definition trunc_mod :: "int \<Rightarrow> int \<Rightarrow> int" where
  "trunc_mod a b = a - trunc_div a b * b"

text \<open>\<open>time.Since(t)\<close> when the clock is \<open>now\<close>, and \<open>time.Until(t)\<close>.\<close>

definition Since :: "time \<Rightarrow> time \<Rightarrow> int" where
  "Since now t = max (- (2 ^ 63)) (min (2 ^ 63 - 1) (1000 * (now - t)))"

definition Until :: "time \<Rightarrow> time \<Rightarrow> int" where
  "Until now t = max (- (2 ^ 63)) (min (2 ^ 63 - 1) (1000 * (t - now)))"

text \<open>The whole units and the rest are added as floating-point numbers.\<close>

definition Hours :: "int \<Rightarrow> rat" where
  "Hours d =
     (let h = 3600000000000
      in fl64 (of_int (trunc_div d h) + fl64 (of_int (trunc_mod d h) / of_int h)))"

definition Seconds :: "int \<Rightarrow> rat" where
  "Seconds d =
     (let n = 1000000000
      in fl64 (of_int (trunc_div d n) + fl64 (of_int (trunc_mod d n) / of_int n)))"

text \<open>The conversion of a floating-point number to an integer.\<close>

definition toward_zero :: "rat \<Rightarrow> int" where
  "toward_zero x = (if 0 \<le> x then \<lfloor>x\<rfloor> else \<lceil>x\<rceil>)"

lemma Since_bounds: "- (2 ^ 63) \<le> Since now t" "Since now t < 2 ^ 63"
  by (simp_all add: Since_def)

end
