(* ===== verification/Memory_Valkey.thy ===== *)
theory Memory_Valkey
  imports Valkey Durations Memory_Port
begin

text \<open>
  \<open>internal/memory/valkey_store.go\<close>: working memories in Valkey, each under a key of its
  namespace, agent and identifier, with an index entry from the identifier to that key.
  \<open>client\<close> are the commands of the server, \<open>ttl\<close> the default time to live in seconds,
  \<open>marshal\<close> is \<open>json.Marshal\<close> of the raw content, and \<open>jtext\<close> the text of a document.
\<close>

section \<open>Keys\<close>

definition vk_key :: "string \<Rightarrow> string \<Rightarrow> uuid \<Rightarrow> string" where
  "vk_key ns agentDID i = ''acumius:working:'' @ ns @ '':'' @ agentDID @ '':'' @ i"

definition latestKey :: "string \<Rightarrow> string \<Rightarrow> string" where
  "latestKey ns agentDID = ''acumius:working:'' @ ns @ '':'' @ agentDID @ '':latest''"

definition indexKey :: "uuid \<Rightarrow> string" where
  "indexKey i = ''acumius:working:index:'' @ i"

section \<open>Operations\<close>

text \<open>\<open>now\<close> is the clock of \<open>time.Until\<close>. The score of the sorted set is the Unix time.\<close>

definition default_ttl :: "int \<Rightarrow> int" where
  "default_ttl ttl = (if ttl = 0 then 24 * 3600 else ttl)"

definition vk_Store ::
  "'s kv_commands \<Rightarrow> (bytes \<Rightarrow> error + bytes) \<Rightarrow> int \<Rightarrow> time \<Rightarrow> Memory \<Rightarrow> ('s, unit) proc" where
  "vk_Store client marshal ttl now m =
     (if m_Type m \<noteq> Working
      then fail (Plain (''valkey store only supports Working memory, got '' @ m_Type m))
      else
        (case marshal (m_Content m) of
           Inl e \<Rightarrow> fail (Wrap ''marshal memory'' e)
         | Inr content \<Rightarrow>
             let key = vk_key (m_Namespace m) (m_AgentDID m) (m_ID m);
                 ttlSeconds = (case m_ValidUntil m of
                   None \<Rightarrow> ttl | Some t \<Rightarrow> toward_zero (Seconds (Until now t)));
                 latest = latestKey (m_Namespace m) (m_AgentDID m)
             in attempt (kv_setex client key (VMemory (m\<lparr>m_Content := content, m_Embedding := []\<rparr>)) ttlSeconds)
                  (Wrap ''valkey set'') (\<lambda>_.
                attempt (kv_setex client (indexKey (m_ID m)) (VText key) ttlSeconds)
                  (Wrap ''valkey set index'') (\<lambda>_.
                attempt (kv_zadd client latest (m_CreatedAt m div 1000000) (m_ID m))
                  (Wrap ''valkey zadd'') (\<lambda>_.
                attempt_or (kv_zremrangebyrank client latest 0 (- 1001)) (\<lambda>_. ret ()) (\<lambda>_. ret ()))))))"

definition vk_Update ::
  "'s kv_commands \<Rightarrow> (bytes \<Rightarrow> error + bytes) \<Rightarrow> int \<Rightarrow> time \<Rightarrow> Memory \<Rightarrow> ('s, unit) proc" where
  "vk_Update client marshal ttl now m = vk_Store client marshal ttl now m"

text \<open>A reply read as text.\<close>

definition to_text :: "(kvalue \<Rightarrow> string) \<Rightarrow> kvalue \<Rightarrow> string" where
  "to_text jtext v = (case v of VText t \<Rightarrow> t | _ \<Rightarrow> jtext v)"

definition vk_Retrieve :: "'s kv_commands \<Rightarrow> (kvalue \<Rightarrow> string) \<Rightarrow> uuid \<Rightarrow> ('s, Memory) proc" where
  "vk_Retrieve client jtext i =
     attempt (kv_get client (indexKey i)) (Wrap ''valkey get index'') (\<lambda>reply.
       case reply of
         None \<Rightarrow> fail (Plain (''memory not found: '' @ i))
       | Some v \<Rightarrow>
           attempt (kv_get client (to_text jtext v)) (Wrap ''valkey get'') (\<lambda>data.
             case data of
               None \<Rightarrow> fail (Plain (''memory expired or deleted: '' @ i))
             | Some d \<Rightarrow>
                 (case unmarshal_memory d of
                    Inl e \<Rightarrow> fail (Wrap ''unmarshal memory'' e)
                  | Inr m \<Rightarrow> ret m)))"

definition vk_Delete :: "'s kv_commands \<Rightarrow> (kvalue \<Rightarrow> string) \<Rightarrow> uuid \<Rightarrow> ('s, unit) proc" where
  "vk_Delete client jtext i =
     attempt (kv_get client (indexKey i)) (Wrap ''valkey get index'') (\<lambda>reply.
       case reply of
         None \<Rightarrow> fail (Plain (''memory not found: '' @ i))
       | Some v \<Rightarrow>
           attempt (kv_del client (indexKey i)) (Wrap ''valkey del index'') (\<lambda>_.
           attempt (kv_del client (to_text jtext v)) (Wrap ''valkey del'') (\<lambda>_. ret ())))"

text \<open>
  \<open>Search\<close>: the inner loop over the keys of one reply, which stops at the limit, and the outer
  loop over the cursor. The outer loop goes on as long as the server returns a cursor; what
  ends it otherwise is the request's context, here after \<open>fuel\<close> replies.
\<close>

fun scan_keys ::
  "'s kv_commands \<Rightarrow> SearchQuery \<Rightarrow> string list \<Rightarrow> Memory list \<Rightarrow> 's \<Rightarrow> Memory list \<times> 's"
where
  "scan_keys client query [] results s = (results, s)"
| "scan_keys client query (key # keys) results s =
     (if Contains key '':index:'' \<or> HasSuffix key '':latest'' then scan_keys client query keys results s
      else
        (case kv_get client key s of
           (Inr (Some data), s') \<Rightarrow>
             (case unmarshal_memory data of
                Inl _ \<Rightarrow> scan_keys client query keys results s'
              | Inr m \<Rightarrow>
                  if \<not> Contains (m_Content m) (sq_Query query) then scan_keys client query keys results s'
                  else if 0 < length (sq_Namespaces query) \<and> m_Namespace m \<notin> set (sq_Namespaces query)
                  then scan_keys client query keys results s'
                  else
                    let results' = results @ [m]
                    in if sq_Limit query \<le> int (length results') then (results', s')
                       else scan_keys client query keys results' s')
         | (_, s') \<Rightarrow> scan_keys client query keys results s'))"

fun scan_loop ::
  "nat \<Rightarrow> 's kv_commands \<Rightarrow> string \<Rightarrow> SearchQuery \<Rightarrow> nat \<Rightarrow> Memory list \<Rightarrow> ('s, Memory list) proc"
where
  "scan_loop 0 client pattern query cursor results s =
     (Inl (Wrap ''valkey scan'' (Driver ''context canceled'')), s)"
| "scan_loop (Suc fuel) client pattern query cursor results s =
     (case kv_scan client cursor pattern 100 s of
        (Inl e, s') \<Rightarrow> (Inl (Wrap ''valkey scan'' e), s')
      | (Inr (keys, cursor'), s') \<Rightarrow>
          (case scan_keys client query keys results s' of
             (results', s'') \<Rightarrow>
               if cursor' = 0 \<or> sq_Limit query \<le> int (length results') then (Inr results', s'')
               else scan_loop fuel client pattern query cursor' results' s''))"

definition vk_Search :: "nat \<Rightarrow> 's kv_commands \<Rightarrow> SearchQuery \<Rightarrow> ('s, SearchResult) proc" where
  "vk_Search fuel client query =
     (let pattern = (case sq_Namespaces query of
                       [ns] \<Rightarrow> ''acumius:working:'' @ ns @ '':*:*'' | _ \<Rightarrow> ''acumius:working:*:*:*'')
      in attempt (scan_loop fuel client pattern query 0 []) id (\<lambda>results.
           ret \<lparr>res_Results = results, res_Total = int (length results), res_Limit = sq_Limit query,
                res_Offset = sq_Offset query\<rparr>))"

definition vk_ListByNamespace :: "string \<Rightarrow> ListOpts \<Rightarrow> ('s, SearchResult) proc" where
  "vk_ListByNamespace ns opts = ret \<lparr>res_Results = [], res_Total = 0, res_Limit = 0, res_Offset = 0\<rparr>"

definition vk_RedactPII :: "string \<Rightarrow> string list \<Rightarrow> ('s, int) proc" where
  "vk_RedactPII ns piiTypes = ret 0"

definition vk_Expire :: "time \<Rightarrow> ('s, int) proc" where
  "vk_Expire before = ret 0"

definition ValkeyStore ::
  "nat \<Rightarrow> 's kv_commands \<Rightarrow> (bytes \<Rightarrow> error + bytes) \<Rightarrow> (kvalue \<Rightarrow> string) \<Rightarrow> int \<Rightarrow> time \<Rightarrow> 's MemoryStore" where
  "ValkeyStore fuel client marshal jtext ttl now =
     \<lparr>ms_Store = vk_Store client marshal ttl now, ms_Update = vk_Update client marshal ttl now,
      ms_Delete = vk_Delete client jtext, ms_Retrieve = vk_Retrieve client jtext,
      ms_Search = vk_Search fuel client, ms_ListByNamespace = vk_ListByNamespace,
      ms_RedactPII = vk_RedactPII, ms_Expire = vk_Expire, ms_Ping = kv_ping client\<rparr>"

section \<open>Keys do not collide\<close>

definition canonical_uuid :: "uuid \<Rightarrow> bool" where
  "canonical_uuid i \<longleftrightarrow> length i = 36 \<and> set i \<subseteq> set ''0123456789abcdef-''"

lemma vk_key_inj:
  assumes "length i = length j" and "vk_key ns a i = vk_key ns' a' j"
  shows "i = j"
  using assms by (auto simp: vk_key_def append_eq_append_conv dest: arg_cong [of _ _ "\<lambda>s. drop (length s - length j) s"])

lemma count_colon: "length (filter (\<lambda>c. c = CHR '':'') (xs @ ys)) = length (filter (\<lambda>c. c = CHR '':'') xs) + length (filter (\<lambda>c. c = CHR '':'') ys)"
  by simp

lemma vk_key_not_index:
  assumes "canonical_uuid i" and "canonical_uuid j"
  shows "vk_key ns a i \<noteq> indexKey j"
proof
  assume eq: "vk_key ns a i = indexKey j"
  have no_colon: "filter (\<lambda>c. c = CHR '':'') u = []" if "canonical_uuid u" for u
    using that by (auto simp: canonical_uuid_def filter_empty_conv)
  have "length (filter (\<lambda>c. c = CHR '':'') (vk_key ns a i)) \<ge> 4"
    by (simp add: vk_key_def)
  moreover have "length (filter (\<lambda>c. c = CHR '':'') (indexKey j)) = 3"
    using no_colon [OF assms(2)] by (simp add: indexKey_def)
  ultimately show False using eq by simp
qed

lemma indexKey_inj [simp]: "indexKey i = indexKey j \<longleftrightarrow> i = j"
  by (simp add: indexKey_def)

section \<open>The store keeps the contract\<close>

definition index_ok :: "(string \<Rightarrow> kvalue option) \<Rightarrow> bool" where
  "index_ok E \<longleftrightarrow>
     (\<forall>i v. canonical_uuid i \<and> E (indexKey i) = Some v \<longrightarrow> (\<exists>ns a. v = VText (vk_key ns a i)))"

definition live_of :: "(string \<Rightarrow> kvalue option) \<Rightarrow> uuid \<Rightarrow> Memory option" where
  "live_of E i =
     (case E (indexKey i) of
        Some (VText k) \<Rightarrow> (case E k of Some (VMemory m) \<Rightarrow> Some m | _ \<Rightarrow> None)
      | _ \<Rightarrow> None)"

definition vk_form :: "(bytes \<Rightarrow> error + bytes) \<Rightarrow> Memory \<Rightarrow> Memory" where
  "vk_form marshal m =
     m\<lparr>m_Content := (case marshal (m_Content m) of Inl _ \<Rightarrow> m_Content m | Inr b \<Rightarrow> b), m_Embedding := []\<rparr>"

lemma index_okD:
  "index_ok E \<Longrightarrow> canonical_uuid i \<Longrightarrow> E (indexKey i) = Some v \<Longrightarrow> \<exists>ns a. v = VText (vk_key ns a i)"
  unfolding index_ok_def by blast

lemma key_separation:
  assumes "canonical_uuid i" and "canonical_uuid j"
  shows "vk_key ns a i \<noteq> indexKey j" and "indexKey j \<noteq> vk_key ns a i"
    and "i \<noteq> j \<Longrightarrow> vk_key ns a i \<noteq> vk_key ns' a' j"
proof -
  show "vk_key ns a i \<noteq> indexKey j" by (rule vk_key_not_index [OF assms])
  then show "indexKey j \<noteq> vk_key ns a i" by (rule not_sym)
  show "i \<noteq> j \<Longrightarrow> vk_key ns a i \<noteq> vk_key ns' a' j"
    using vk_key_inj [of i j ns a ns' a'] assms by (auto simp: canonical_uuid_def)
qed

lemma index_ok_set:
  assumes "index_ok E" and "canonical_uuid j"
  shows "index_ok (E(vk_key ns a j \<mapsto> x))"
    and "index_ok (E(vk_key ns a j \<mapsto> x, indexKey j \<mapsto> VText (vk_key ns a j)))"
    and "index_ok (E(indexKey j := None))" and "index_ok (E(indexKey j := None, vk_key ns a j := None))"
  using assms unfolding index_ok_def by (auto simp: key_separation)

lemma live_of_other:
  assumes ok: "index_ok E" and ids: "canonical_uuid i" "canonical_uuid j" and ne: "i \<noteq> j"
    and agree: "\<And>k. k \<noteq> indexKey j \<Longrightarrow> (\<And>ns a. k \<noteq> vk_key ns a j) \<Longrightarrow> E' k = E k"
  shows "live_of E' i = live_of E i"
proof -
  have index: "E' (indexKey i) = E (indexKey i)"
    using ids ne by (intro agree) (simp_all add: key_separation)
  show ?thesis
  proof (cases "E (indexKey i)")
    case None
    then show ?thesis using index by (simp add: live_of_def)
  next
    case (Some v)
    then obtain ns a where v: "v = VText (vk_key ns a i)" using index_okD [OF ok ids(1)] by blast
    have "E' (vk_key ns a i) = E (vk_key ns a i)"
      using ids ne by (intro agree) (simp_all add: key_separation)
    then show ?thesis using index Some v by (simp add: live_of_def)
  qed
qed

lemma live_of_stored:
  assumes ok: "index_ok E" and ids: "canonical_uuid i" "canonical_uuid j"
  shows "live_of (E(vk_key ns a j \<mapsto> VMemory m, indexKey j \<mapsto> VText (vk_key ns a j))) i =
    (if i = j then Some m else live_of E i)"
    (is "live_of ?E i = _")
proof (cases "i = j")
  case True
  then show ?thesis using ids by (simp add: live_of_def key_separation)
next
  case False
  moreover have "live_of ?E i = live_of E i" by (rule live_of_other [OF ok ids False]) simp
  ultimately show ?thesis by simp
qed

lemma live_of_deleted:
  assumes ok: "index_ok E" and ids: "canonical_uuid i" "canonical_uuid j"
  shows "live_of (E(indexKey j := None, vk_key ns a j := None)) i = (if i = j then None else live_of E i)"
    (is "live_of ?E i = _")
proof (cases "i = j")
  case True
  then show ?thesis using ids by (simp add: live_of_def key_separation)
next
  case False
  moreover have "live_of ?E i = live_of E i" by (rule live_of_other [OF ok ids False]) simp
  ultimately show ?thesis by simp
qed

context kv_client
begin

lemma vk_Store_entries:
  assumes "vk_Store client marshal ttl now m s = (r, s')"
  shows "\<exists>doc. doc = VMemory (vk_form marshal m) \<and>
    (let k = vk_key (m_Namespace m) (m_AgentDID m) (m_ID m);
         e1 = (entry s)(k \<mapsto> doc); e2 = e1(indexKey (m_ID m) \<mapsto> VText k)
     in (entry s' = entry s \<or> entry s' = e1 \<or> entry s' = e2) \<and>
        (r = Inr () \<longrightarrow> entry s' = e2 \<and> m_Type m = Working))"
proof -
  define k where "k = vk_key (m_Namespace m) (m_AgentDID m) (m_ID m)"
  define doc where "doc = VMemory (vk_form marshal m)"
  define tt where "tt = (case m_ValidUntil m of None \<Rightarrow> ttl | Some t \<Rightarrow> toward_zero (Seconds (Until now t)))"
  define la where "la = latestKey (m_Namespace m) (m_AgentDID m)"
  define e1 where "e1 = (entry s)(k \<mapsto> doc)"
  define e2 where "e2 = e1(indexKey (m_ID m) \<mapsto> VText k)"
  let ?tail = "\<lambda>_. attempt (kv_zadd client la (m_CreatedAt m div 1000000) (m_ID m)) (Wrap ''valkey zadd'') (\<lambda>_.
       attempt_or (kv_zremrangebyrank client la 0 (- 1001)) (\<lambda>_. ret ()) (\<lambda>_. ret ()))"
  have tail: "entry t' = entry t" if "?tail () t = (q, t')" for q t t'
    using that by (auto simp: attempt_def attempt_or_def ret_def dest!: zadd_entry zrem_entry
        split: prod.splits sum.splits)
  have "(entry s' = entry s \<or> entry s' = e1 \<or> entry s' = e2) \<and>
      (r = Inr () \<longrightarrow> entry s' = e2 \<and> m_Type m = Working)"
  proof (cases "m_Type m = Working")
    case False
    then show ?thesis using assms by (auto simp: vk_Store_def fail_def)
  next
    case work: True
    show ?thesis
    proof (cases "marshal (m_Content m)")
      case (Inl e)
      then show ?thesis using assms work by (auto simp: vk_Store_def fail_def)
    next
      case (Inr b)
      then have doc': "doc = VMemory (m\<lparr>m_Content := b, m_Embedding := []\<rparr>)"
        by (simp add: doc_def vk_form_def)
      have run: "attempt (kv_setex client k doc tt) (Wrap ''valkey set'') (\<lambda>_.
          attempt (kv_setex client (indexKey (m_ID m)) (VText k) tt) (Wrap ''valkey set index'') ?tail) s = (r, s')"
        using assms work Inr unfolding vk_Store_def Let_def doc' k_def tt_def la_def by simp
      obtain q1 s1 where 1: "kv_setex client k doc tt s = (q1, s1)" by fastforce
      show ?thesis
      proof (cases q1)
        case (Inl e)
        then show ?thesis using run 1 set_lost [of k doc tt s e s1] by (auto simp: attempt_def e1_def)
      next
        case (Inr u)
        then have s1: "entry s1 = e1" using 1 set_entry [of k doc tt s u s1] by (simp add: e1_def)
        obtain q2 s2 where 2: "kv_setex client (indexKey (m_ID m)) (VText k) tt s1 = (q2, s2)" by fastforce
        show ?thesis
        proof (cases q2)
          case (Inl e)
          then show ?thesis
            using run 1 Inr 2 s1 set_lost [of "indexKey (m_ID m)" "VText k" tt s1 e s2]
            by (auto simp: attempt_def e2_def \<open>q1 = Inr u\<close>)
        next
          case (Inr v)
          then have s2: "entry s2 = e2"
            using 2 s1 set_entry [of "indexKey (m_ID m)" "VText k" tt s1 v s2] by (simp add: e2_def)
          have "?tail () s2 = (r, s')"
            using run 1 2 Inr \<open>q1 = Inr u\<close> by (simp add: attempt_def)
          then show ?thesis using tail s2 work by simp
        qed
      qed
    qed
  qed
  then show ?thesis unfolding Let_def k_def [symmetric] doc_def [symmetric] e1_def e2_def by blast
qed

lemma vk_Retrieve_reads: "vk_Retrieve client jtext i s = (r, s') \<Longrightarrow> entry s' = entry s"
  by (auto simp: vk_Retrieve_def attempt_def ret_def fail_def dest!: get_reads
      split: prod.splits sum.splits option.splits)

lemma vk_Retrieve_live:
  assumes ok: "index_ok (entry s)" "canonical_uuid i" and run: "vk_Retrieve client jtext i s = (Inr m, s')"
  shows "live_of (entry s) i = Some m"
proof -
  obtain v s1 d s2 where v: "kv_get client (indexKey i) s = (Inr (Some v), s1)"
    and d: "kv_get client (to_text jtext v) s1 = (Inr (Some d), s2)"
    and tail: "(case unmarshal_memory d of Inl e \<Rightarrow> fail (Wrap ''unmarshal memory'' e) | Inr m \<Rightarrow> ret m) s2 = (Inr m, s')"
    using run by (auto simp: vk_Retrieve_def attempt_Inr_iff fail_def split: option.splits)
  have m: "unmarshal_memory d = Inr m"
    using tail by (cases "unmarshal_memory d") (auto simp: ret_def fail_def)
  have e: "entry s (indexKey i) = Some v" using get_entry [OF v] by simp
  then obtain ns a where "v = VText (vk_key ns a i)" using index_okD [OF ok] by blast
  moreover have "entry s (to_text jtext v) = Some d" using get_entry [OF d] get_reads [OF v] by simp
  moreover have "d = VMemory m" using m by (cases d) auto
  ultimately show ?thesis using e by (simp add: live_of_def to_text_def)
qed

lemma vk_Delete_entries:
  assumes ok: "index_ok (entry s)" "canonical_uuid i" and run: "vk_Delete client jtext i s = (r, s')"
  shows "entry s' = entry s \<or> (\<exists>ns a. entry s (indexKey i) = Some (VText (vk_key ns a i)) \<and>
    (let e1 = (entry s)(indexKey i := None); e2 = e1(vk_key ns a i := None)
     in (entry s' = e1 \<or> entry s' = e2)))"
    and "r = Inr () \<Longrightarrow> (\<exists>ns a. entry s (indexKey i) = Some (VText (vk_key ns a i)) \<and>
       entry s' = (entry s)(indexKey i := None, vk_key ns a i := None))"
proof -
  obtain g s1 where g: "kv_get client (indexKey i) s = (g, s1)" by fastforce
  note s1 = get_reads [OF g]
  have "(entry s' = entry s \<and> r \<noteq> Inr ()) \<or> (\<exists>v. g = Inr (Some v) \<and>
      attempt (kv_del client (indexKey i)) (Wrap ''valkey del index'') (\<lambda>_.
        attempt (kv_del client (to_text jtext v)) (Wrap ''valkey del'') (\<lambda>_. ret ())) s1 = (r, s'))"
    using run g s1 by (cases g) (auto simp: vk_Delete_def attempt_def fail_def split: option.splits)
  then have "(entry s' = entry s \<and> r \<noteq> Inr ()) \<or> (\<exists>ns a. entry s (indexKey i) = Some (VText (vk_key ns a i)) \<and>
      (let e1 = (entry s)(indexKey i := None); e2 = e1(vk_key ns a i := None)
       in (entry s' = entry s \<and> r \<noteq> Inr ()) \<or> (entry s' = e1 \<and> r \<noteq> Inr ()) \<or> entry s' = e2))"
  proof (elim disjE exE conjE)
    fix v
    assume v: "g = Inr (Some v)"
      and dels: "attempt (kv_del client (indexKey i)) (Wrap ''valkey del index'') (\<lambda>_.
        attempt (kv_del client (to_text jtext v)) (Wrap ''valkey del'') (\<lambda>_. ret ())) s1 = (r, s')"
    have e: "entry s (indexKey i) = Some v" using get_entry [of "indexKey i" s "Some v" s1] g v by simp
    then obtain ns a where va: "v = VText (vk_key ns a i)" using index_okD [OF ok] by blast
    obtain q2 s2 where 2: "kv_del client (indexKey i) s1 = (q2, s2)" by fastforce
    have "let e1 = (entry s)(indexKey i := None); e2 = e1(vk_key ns a i := None)
       in (entry s' = entry s \<and> r \<noteq> Inr ()) \<or> (entry s' = e1 \<and> r \<noteq> Inr ()) \<or> entry s' = e2"
    proof (cases q2)
      case (Inl e2)
      then show ?thesis using dels 2 s1 del_lost [of "indexKey i" s1 e2 s2] by (auto simp: attempt_def Let_def)
    next
      case (Inr u)
      then have s2: "entry s2 = (entry s)(indexKey i := None)" using 2 s1 del_entry [of "indexKey i" s1 u s2] by simp
      obtain q3 s3 where 3: "kv_del client (vk_key ns a i) s2 = (q3, s3)" by fastforce
      show ?thesis
        using dels 2 Inr 3 s2 del_lost [of "vk_key ns a i" s2 _ s3] del_entry [of "vk_key ns a i" s2 _ s3]
        by (cases q3) (auto simp: attempt_def Let_def ret_def va to_text_def)
    qed
    with e va show ?thesis by blast
  qed blast
  then show "entry s' = entry s \<or> (\<exists>ns a. entry s (indexKey i) = Some (VText (vk_key ns a i)) \<and>
    (let e1 = (entry s)(indexKey i := None); e2 = e1(vk_key ns a i := None)
     in (entry s' = e1 \<or> entry s' = e2)))"
    and "r = Inr () \<Longrightarrow> (\<exists>ns a. entry s (indexKey i) = Some (VText (vk_key ns a i)) \<and>
       entry s' = (entry s)(indexKey i := None, vk_key ns a i := None))"
    by (auto simp: Let_def)
qed

end

text \<open>Any client that keeps its contract makes the store keep the router's.\<close>

sublocale kv_client \<subseteq> working: memory_store
  "ValkeyStore fuel client marshal jtext ttl now" "\<lambda>s. index_ok (entry s)" canonical_uuid
  "\<lambda>s. live_of (entry s)" "vk_form marshal" "\<lambda>ty. ty = Working"
  for fuel marshal jtext ttl now
proof (unfold_locales, goal_cases)
  case (1 m s u s')
  then show ?case using vk_Store_entries [of marshal ttl now m s "Inr u" s'] by (simp add: ValkeyStore_def Let_def)
next
  case (2 s m u s' i)
  then show ?case
    using vk_Store_entries [of marshal ttl now m s "Inr u" s'] live_of_stored [of "entry s" i "m_ID m"]
    by (simp add: ValkeyStore_def Let_def)
next
  case (3 s m r s')
  then show ?case
    using vk_Store_entries [of marshal ttl now m s r s'] index_ok_set [of "entry s" "m_ID m"]
    by (auto simp: ValkeyStore_def Let_def)
next
  case (4 s i m s')
  then show ?case using vk_Retrieve_live [of s i jtext m s'] by (simp add: ValkeyStore_def)
next
  case (5 i s q s')
  then show ?case using vk_Retrieve_reads [of jtext i s q s'] by (simp add: ValkeyStore_def)
next
  case (6 s i u s' j)
  then show ?case
    using vk_Delete_entries(2) [of s i jtext "Inr u" s'] live_of_deleted [of "entry s" j i]
    by (auto simp: ValkeyStore_def)
next
  case (7 s i r s')
  then show ?case
    using vk_Delete_entries(1) [of s i jtext r s'] index_ok_set [of "entry s" i]
    by (auto simp: ValkeyStore_def Let_def)
qed

section \<open>Properties\<close>

definition vk_ttl :: "int \<Rightarrow> time \<Rightarrow> Memory \<Rightarrow> int" where
  "vk_ttl ttl now m =
     (case m_ValidUntil m of None \<Rightarrow> ttl | Some t \<Rightarrow> toward_zero (Seconds (Until now t)))"

context served_client
begin

lemma vk_Store_served:
  assumes "served s" and "m_Type m = Working" and "marshal (m_Content m) = Inr b" and "0 < vk_ttl ttl now m"
  shows "\<exists>s'. vk_Store client marshal ttl now m s = (Inr (), s') \<and> served s'"
proof -
  obtain s1 where 1: "kv_setex client (vk_key (m_Namespace m) (m_AgentDID m) (m_ID m))
      (VMemory (m\<lparr>m_Content := b, m_Embedding := []\<rparr>)) (vk_ttl ttl now m) s = (Inr (), s1)" "served s1"
    using set_served [OF assms(1,4)] by blast
  obtain s2 where 2: "kv_setex client (indexKey (m_ID m)) (VText (vk_key (m_Namespace m) (m_AgentDID m) (m_ID m)))
      (vk_ttl ttl now m) s1 = (Inr (), s2)" "served s2"
    using set_served [OF 1(2) assms(4)] by blast
  obtain s3 where 3: "kv_zadd client (latestKey (m_Namespace m) (m_AgentDID m)) (m_CreatedAt m div 1000000) (m_ID m) s2 = (Inr (), s3)" "served s3"
    using zadd_served [OF 2(2)] by blast
  obtain s4 where 4: "kv_zremrangebyrank client (latestKey (m_Namespace m) (m_AgentDID m)) 0 (- 1001) s3 = (Inr (), s4)" "served s4"
    using zrem_served [OF 3(2)] by blast
  show ?thesis
    using assms(2,3) 1 2 3 4 unfolding vk_Store_def Let_def vk_ttl_def [symmetric]
    by (simp add: attempt_def attempt_or_def ret_def)
qed

lemma vk_Retrieve_served:
  assumes "served s" and ok: "index_ok (entry s)" "canonical_uuid i" and live: "live_of (entry s) i = Some m"
  shows "\<exists>s'. vk_Retrieve client jtext i s = (Inr m, s') \<and> served s'"
proof -
  obtain k where k: "entry s (indexKey i) = Some (VText k)" "entry s k = Some (VMemory m)"
    using live by (auto simp: live_of_def split: option.splits kvalue.splits)
  obtain s1 where 1: "kv_get client (indexKey i) s = (Inr (Some (VText k)), s1)" "served s1"
    using get_served [OF assms(1), of "indexKey i"] k by auto
  obtain s2 where 2: "kv_get client k s1 = (Inr (Some (VMemory m)), s2)" "served s2"
    using get_served [OF 1(2), of k] k get_reads [OF 1(1)] by auto
  show ?thesis using 1 2 by (simp add: vk_Retrieve_def attempt_def to_text_def ret_def)
qed

lemma vk_store_retrieve_delete:
  assumes s: "served s" "index_ok (entry s)" and id: "canonical_uuid (m_ID m)" and ty: "m_Type m = Working"
    and json: "marshal (m_Content m) = Inr b" and ttl: "0 < vk_ttl ttl now m"
  shows "\<exists>s1 s2. vk_Store client marshal ttl now m s = (Inr (), s1) \<and> index_ok (entry s1) \<and>
    vk_Retrieve client jtext (m_ID m) s1 = (Inr (m\<lparr>m_Content := b, m_Embedding := []\<rparr>), s2) \<and>
    (\<forall>j m' s'. canonical_uuid j \<and> j \<noteq> m_ID m \<and> vk_Retrieve client jtext j s1 = (Inr m', s') \<longrightarrow>
       live_of (entry s) j = Some m') \<and>
    (\<forall>s3. vk_Delete client jtext (m_ID m) s1 = (Inr (), s3) \<longrightarrow>
       (\<exists>e. fst (vk_Retrieve client jtext (m_ID m) s3) = Inl e))"
proof -
  note contract = working.store_ok working.store_live working.store_then_retrieve working.delete_then_retrieve
  note contract = contract [unfolded ValkeyStore_def MemoryStore.simps]
  obtain s1 where store: "vk_Store client marshal ttl now m s = (Inr (), s1)" and s1: "served s1"
    using vk_Store_served [where marshal = marshal and m = m and b = b, OF s(1) ty json ttl] by blast
  note ok1 = contract(1) [OF s(2) id store]
  have "live_of (entry s1) (m_ID m) = Some (m\<lparr>m_Content := b, m_Embedding := []\<rparr>)"
    using contract(2) [OF s(2) id store id] json by (simp add: vk_form_def)
  then obtain s2 where "vk_Retrieve client jtext (m_ID m) s1 = (Inr (m\<lparr>m_Content := b, m_Embedding := []\<rparr>), s2)"
    using vk_Retrieve_served [OF s1 ok1 id] by blast
  moreover have "live_of (entry s) j = Some m'"
    if "canonical_uuid j" "j \<noteq> m_ID m" "vk_Retrieve client jtext j s1 = (Inr m', s')" for j m' s'
    using contract(3) [OF s(2) id store that(1) that(3)] that by simp
  moreover have "\<exists>e. fst (vk_Retrieve client jtext (m_ID m) s3) = Inl e"
    if "vk_Delete client jtext (m_ID m) s1 = (Inr (), s3)" for s3
    using contract(4) [OF ok1 id that] .
  ultimately show ?thesis using store ok1 by blast
qed

end

text \<open>
  Working memories are stored, found and removed by their identifier, whatever the
  namespaces and agents in the keys (also with separators in them): over any client that
  keeps its contract, in a state whose index is sound, a working memory with JSON content and
  a positive time to live is stored; \<open>Retrieve\<close> then returns it as marshalled, and what it returns
  for any other identifier is what it returned before; after a successful \<open>Delete\<close> it is
  not found.
\<close>

lemma vk_Store_then_Retrieve:
  assumes kv: "served_client client entry served" and s: "served s" "index_ok (entry s)"
    and id: "canonical_uuid (m_ID m)" and ty: "m_Type m = Working" and json: "marshal (m_Content m) = Inr b"
    and live: "0 < vk_ttl ttl now m"
  shows "\<exists>s1 s2. vk_Store client marshal ttl now m s = (Inr (), s1) \<and> index_ok (entry s1) \<and>
    vk_Retrieve client jtext (m_ID m) s1 = (Inr (m\<lparr>m_Content := b, m_Embedding := []\<rparr>), s2) \<and>
    (\<forall>j m' s'. canonical_uuid j \<and> j \<noteq> m_ID m \<and> vk_Retrieve client jtext j s1 = (Inr m', s') \<longrightarrow>
       live_of (entry s) j = Some m') \<and>
    (\<forall>s3. vk_Delete client jtext (m_ID m) s1 = (Inr (), s3) \<longrightarrow>
       (\<exists>e. fst (vk_Retrieve client jtext (m_ID m) s3) = Inl e))"
  by (rule served_client.vk_store_retrieve_delete [where marshal = marshal and m = m and b = b, OF kv s id ty json live])

definition sample_working :: "string \<Rightarrow> Memory" where
  "sample_working ns = \<lparr>m_ID = ''11111111-2222-3333-4444-555555555555'', m_Type = Working, m_Namespace = ns,
     m_AgentDID = ''did:acumius:a'', m_Content = ''{}'', m_Embedding = [], m_Metadata = no_metadata,
     m_ValidFrom = None, m_ValidUntil = None, m_DistilledFrom = None, m_CreatedAt = 1, m_UpdatedAt = 1,
     m_DeletedAt = None\<rparr>"

definition empty_server :: server where
  "empty_server = \<lparr>k_strings = [], k_zsets = [], k_now = 0, k_outcomes = []\<rparr>"

lemma vk_Store_then_Retrieve_witness:
  "\<exists>s1 s2. vk_Store (reference_server (\<lambda>_ _. True)) Inr (default_ttl 0) 0 (sample_working ''a:b'') empty_server = (Inr (), s1) \<and>
     vk_Retrieve (reference_server (\<lambda>_ _. True)) (\<lambda>_. []) ''11111111-2222-3333-4444-555555555555'' s1 =
       (Inr (sample_working ''a:b''), s2)"
proof -
  have "index_ok (server_entry empty_server)"
    by (simp add: index_ok_def server_entry_def empty_server_def)
  moreover have "canonical_uuid (m_ID (sample_working ''a:b''))"
    by (simp add: canonical_uuid_def sample_working_def)
  ultimately show ?thesis
    using vk_Store_then_Retrieve [OF reference_calm.served_client_axioms, of empty_server "sample_working ''a:b''"
        Inr "''{}''" "default_ttl 0" 0 "\<lambda>_ _. True" "\<lambda>_. []"]
    by (auto simp: sample_working_def empty_server_def vk_ttl_def default_ttl_def)
qed

section \<open>Search\<close>

definition search_hit :: "SearchQuery \<Rightarrow> (string \<Rightarrow> kvalue option) \<Rightarrow> Memory \<Rightarrow> bool" where
  "search_hit query E m \<longleftrightarrow>
     (\<exists>k. E k = Some (VMemory m) \<and> \<not> Contains k '':index:'') \<and> Contains (m_Content m) (sq_Query query) \<and>
     (sq_Namespaces query = [] \<or> m_Namespace m \<in> set (sq_Namespaces query))"

context kv_client
begin

lemma scan_keys_sound:
  "\<forall>m \<in> set acc. search_hit query (entry s) m \<Longrightarrow> acc = [] \<or> int (length acc) < sq_Limit query \<Longrightarrow>
     entry (snd (scan_keys client query keys acc s)) = entry s \<and>
     (\<forall>m \<in> set (fst (scan_keys client query keys acc s)). search_hit query (entry s) m) \<and>
     int (length (fst (scan_keys client query keys acc s))) \<le> max 1 (sq_Limit query)"
proof (induction keys arbitrary: acc s)
  case (Cons key keys)
  obtain g s1 where g: "kv_get client key s = (g, s1)" by fastforce
  note s1 = get_reads [OF g]
  have skip: ?case if "scan_keys client query (key # keys) acc s = scan_keys client query keys acc t"
    "entry t = entry s" for t
    using Cons.IH [of acc t] Cons.prems that by simp
  consider (index) "Contains key '':index:'' \<or> HasSuffix key '':latest''"
    | (miss) "\<not> (Contains key '':index:'' \<or> HasSuffix key '':latest'')" "\<nexists>m. g = Inr (Some (VMemory m))"
    | (hit) m where "\<not> (Contains key '':index:'' \<or> HasSuffix key '':latest'')" "g = Inr (Some (VMemory m))"
    by blast
  then show ?case
  proof cases
    case index
    then show ?thesis by (intro skip [of s]) simp_all
  next
    case miss
    have "unmarshal_memory d = Inl (Plain ''json: cannot unmarshal'')" if "g = Inr (Some d)" for d
      using miss(2) that by (cases d) auto
    then show ?thesis
      using miss(1) g s1 by (intro skip [of s1]) (auto split: sum.splits option.splits)
  next
    case (hit m)
    show ?thesis
    proof (cases "Contains (m_Content m) (sq_Query query) \<and>
        (sq_Namespaces query = [] \<or> m_Namespace m \<in> set (sq_Namespaces query))")
      case False
      then show ?thesis using hit g s1 by (intro skip [of s1]) auto
    next
      case True
      have "entry s key = Some (VMemory m)" using get_entry [of key s "Some (VMemory m)" s1] g hit(2) by simp
      then have h: "search_hit query (entry s) m" using True hit(1) by (auto simp: search_hit_def)
      show ?thesis
      proof (cases "sq_Limit query \<le> int (length acc) + 1")
        case limit: True
        then show ?thesis using True hit g s1 h Cons.prems by auto
      next
        case more: False
        have "scan_keys client query (key # keys) acc s = scan_keys client query keys (acc @ [m]) s1"
          using True hit g more by auto
        then show ?thesis using Cons.IH [of "acc @ [m]" s1] s1 h Cons.prems more by auto
      qed
    qed
  qed
qed auto

lemma scan_loop_sound:
  "scan_loop fuel client pattern query cursor acc s = (r, s') \<Longrightarrow>
     \<forall>m \<in> set acc. search_hit query (entry s) m \<Longrightarrow> acc = [] \<or> int (length acc) < sq_Limit query \<Longrightarrow>
     entry s' = entry s \<and>
     (\<forall>ms. r = Inr ms \<longrightarrow> (\<forall>m \<in> set ms. search_hit query (entry s) m) \<and> int (length ms) \<le> max 1 (sq_Limit query))"
proof (induction fuel arbitrary: cursor acc s)
  case (Suc fuel)
  obtain w s1 where w: "kv_scan client cursor pattern 100 s = (w, s1)" by fastforce
  note s1 = scan_reads [OF w]
  show ?case
  proof (cases w)
    case (Inl e)
    then show ?thesis using Suc.prems(1) w s1 by auto
  next
    case (Inr kc)
    obtain keys cursor' where kc: "kc = (keys, cursor')" by fastforce
    obtain acc' s2 where step: "scan_keys client query keys acc s1 = (acc', s2)" by fastforce
    have sound: "entry s2 = entry s" "\<forall>m \<in> set acc'. search_hit query (entry s) m"
      "int (length acc') \<le> max 1 (sq_Limit query)"
      using scan_keys_sound [of acc query s1 keys] Suc.prems(2,3) step s1 by auto
    show ?thesis
    proof (cases "cursor' = 0 \<or> sq_Limit query \<le> int (length acc')")
      case True
      then show ?thesis using Suc.prems(1) w Inr kc step sound by auto
    next
      case False
      then have "scan_loop fuel client pattern query cursor' acc' s2 = (r, s')"
        using Suc.prems(1) w Inr kc step by auto
      from Suc.IH [OF this] sound False show ?thesis by simp
    qed
  qed
qed auto

end

context kv_client
begin

lemma search_page:
  assumes "vk_Search fuel client query s = (r, s')"
  shows "entry s' = entry s" and "r = Inr res \<Longrightarrow> int (length (res_Results res)) \<le> max 1 (sq_Limit query)"
proof -
  define pattern where "pattern = (case sq_Namespaces query of
     [ns] \<Rightarrow> ''acumius:working:'' @ ns @ '':*:*'' | _ \<Rightarrow> ''acumius:working:*:*:*'')"
  obtain q s1 where loop: "scan_loop fuel client pattern query 0 [] s = (q, s1)" by (rule prod.exhaust)
  have "s1 = s'" and r: "r = (case q of Inl e \<Rightarrow> Inl e
      | Inr ms \<Rightarrow> Inr \<lparr>res_Results = ms, res_Total = int (length ms), res_Limit = sq_Limit query, res_Offset = sq_Offset query\<rparr>)"
    using assms loop unfolding vk_Search_def Let_def pattern_def [symmetric]
    by (cases q; simp add: attempt_def ret_def)+
  then show "entry s' = entry s" and "r = Inr res \<Longrightarrow> int (length (res_Results res)) \<le> max 1 (sq_Limit query)"
    using scan_loop_sound [OF loop] by (auto split: sum.splits)
qed

end

text \<open>The scan ends after at most as many replies as the client's measure says.\<close>

context scanning_client
begin

lemma scan_keys_running:
  "scan_keys client query keys acc s = (acc', s') \<Longrightarrow> laps s' = laps s \<and> (running s \<longrightarrow> running s')"
proof (induction keys arbitrary: acc s)
  case (Cons key keys)
  obtain g s1 where g: "kv_get client key s = (g, s1)" by (rule prod.exhaust)
  note s1 = get_running [OF g]
  show ?case
    using Cons.prems Cons.IH [of acc s] Cons.IH [of _ s1] s1 g
    by (auto simp: Let_def split: if_splits sum.splits option.splits)
qed simp

lemma scan_loop_ends:
  assumes "scan_loop fuel client pattern query cursor acc s = (r, s')"
    and "running s" and "laps s cursor < fuel"
  shows "r \<noteq> Inl (Wrap ''valkey scan'' (Driver ''context canceled'')) \<and> running s' \<and>
    (\<forall>k. scan_loop (fuel + k) client pattern query cursor acc s = (r, s'))"
  using assms
proof (induction fuel arbitrary: cursor acc s)
  case (Suc fuel)
  obtain w s1 where w: "kv_scan client cursor pattern 100 s = (w, s1)" by (rule prod.exhaust)
  note s1 = scan_running [OF w Suc.prems(2)]
  show ?case
  proof (cases w)
    case (Inl e)
    then show ?thesis using Suc.prems(1) w s1 by auto
  next
    case (Inr kc)
    obtain keys cursor' where kc: "kc = (keys, cursor')" by (rule prod.exhaust)
    obtain acc' s2 where step: "scan_keys client query keys acc s1 = (acc', s2)" by (rule prod.exhaust)
    note s2 = scan_keys_running [OF step]
    show ?thesis
    proof (cases "cursor' = 0 \<or> sq_Limit query \<le> int (length acc')")
      case True
      then show ?thesis using Suc.prems(1) w Inr kc step s1 s2 by auto
    next
      case False
      then have "laps s1 cursor' < laps s cursor" using scan_advances w Inr kc by blast
      then have "laps s2 cursor' < fuel" using Suc.prems(3) s2 by simp
      moreover have "scan_loop fuel client pattern query cursor' acc' s2 = (r, s')" "running s2"
        using Suc.prems(1) w Inr kc step False s1 s2 by auto
      ultimately show ?thesis using Suc.IH w Inr kc step False by auto
    qed
  qed
qed simp

lemma vk_Search_ends:
  assumes run: "vk_Search fuel client query s = (r, s')" and "running s" and "laps s 0 < fuel"
  shows "r \<noteq> Inl (Wrap ''valkey scan'' (Driver ''context canceled''))"
    and "fuel \<le> n \<Longrightarrow> vk_Search n client query s = (r, s')"
proof -
  define pattern where "pattern = (case sq_Namespaces query of
     [ns] \<Rightarrow> ''acumius:working:'' @ ns @ '':*:*'' | _ \<Rightarrow> ''acumius:working:*:*:*'')"
  obtain q s1 where loop: "scan_loop fuel client pattern query 0 [] s = (q, s1)" by (rule prod.exhaust)
  note ends = scan_loop_ends [OF loop assms(2,3)]
  have r: "vk_Search n client query s = (r, s')" if "scan_loop n client pattern query 0 [] s = (q, s1)" for n
    using run loop that unfolding vk_Search_def Let_def pattern_def [symmetric]
    by (cases q; simp add: attempt_def ret_def)
  show "r \<noteq> Inl (Wrap ''valkey scan'' (Driver ''context canceled''))"
    using run loop conjunct1 [OF ends] unfolding vk_Search_def Let_def pattern_def [symmetric]
    by (cases q) (auto simp: attempt_def ret_def)
  assume "fuel \<le> n"
  then have "scan_loop n client pattern query 0 [] s = (q, s1)"
    using ends by (metis le_add_diff_inverse)
  then show "vk_Search n client query s = (r, s')" by (rule r)
qed

end

text \<open>
  C35: what a search of working memory returns. Over any client that keeps its contract, and
  however many replies the scan takes, \<open>Search\<close> changes nothing stored; if it returns, it
  returns at most \<open>max 1 limit\<close> memories, each stored under a key outside \<open>:index:\<close>, containing
  the query and in one of the namespaces asked for. (Neither the types nor the agent of the
  query restrict the result.) So when every memory is stored under its own key, no search
  ever returns a memory of the namespace \<open>index\<close>.
\<close>

theorem vk_Search_sound:
  assumes kv: "kv_client client entry" and run: "vk_Search fuel client query s = (r, s')"
  shows "entry s' = entry s \<and>
    (\<forall>res. r = Inr res \<longrightarrow>
       (\<forall>m \<in> set (res_Results res). search_hit query (entry s) m) \<and>
       int (length (res_Results res)) \<le> max 1 (sq_Limit query) \<and>
       res_Total res = int (length (res_Results res)) \<and>
       ((\<forall>k m. entry s k = Some (VMemory m) \<longrightarrow> k = vk_key (m_Namespace m) (m_AgentDID m) (m_ID m)) \<longrightarrow>
          (\<forall>m \<in> set (res_Results res). m_Namespace m \<noteq> ''index'')))"
proof -
  define pattern where "pattern = (case sq_Namespaces query of
     [ns] \<Rightarrow> ''acumius:working:'' @ ns @ '':*:*'' | _ \<Rightarrow> ''acumius:working:*:*:*'')"
  obtain q s1 where loop: "scan_loop fuel client pattern query 0 [] s = (q, s1)" by fastforce
  have "s1 = s'" and r: "r = (case q of Inl e \<Rightarrow> Inl e
      | Inr ms \<Rightarrow> Inr \<lparr>res_Results = ms, res_Total = int (length ms), res_Limit = sq_Limit query, res_Offset = sq_Offset query\<rparr>)"
    using run loop unfolding vk_Search_def Let_def pattern_def [symmetric]
    by (cases q; simp add: attempt_def ret_def)+
  note sound = kv_client.scan_loop_sound [OF kv loop]
  have "Contains (vk_key ''index'' a i) '':index:''" for a i
  proof -
    have "vk_key ''index'' a i = ''acumius:working'' @ '':index:'' @ (a @ '':'' @ i)" by (simp add: vk_key_def)
    then show ?thesis unfolding Contains_iff by blast
  qed
  then have "m_Namespace m \<noteq> ''index''"
    if "search_hit query (entry s) m" "\<forall>k m. entry s k = Some (VMemory m) \<longrightarrow> k = vk_key (m_Namespace m) (m_AgentDID m) (m_ID m)" for m
    using that unfolding search_hit_def by metis
  then show ?thesis using sound r \<open>s1 = s'\<close> by (cases q) auto
qed

theorem vk_Search_sound_witness:
  "\<exists>s1 s2. vk_Store (reference_server (\<lambda>_ _. True)) Inr 60 0 (sample_working ''index'') empty_server = (Inr (), s1) \<and>
     vk_Search 1 (reference_server (\<lambda>_ _. True)) \<lparr>sq_Query = ''{'', sq_Types = [], sq_Namespaces = [''index''],
       sq_AgentDID = [], sq_Limit = 5, sq_Offset = 0, sq_Filters = no_filters\<rparr> s1 =
     (Inr \<lparr>res_Results = [], res_Total = 0, res_Limit = 5, res_Offset = 0\<rparr>, s2)"
proof -
  let ?c = "reference_server (\<lambda>_ _. True)"
  let ?q = "\<lparr>sq_Query = ''{'', sq_Types = [], sq_Namespaces = [''index''],
       sq_AgentDID = [], sq_Limit = 5, sq_Offset = 0, sq_Filters = no_filters\<rparr>"
  let ?s = "\<lparr>k_strings = [(vk_key ''index'' ''did:acumius:a'' ''11111111-2222-3333-4444-555555555555'', VMemory (sample_working ''index''), 60000000),
      (indexKey ''11111111-2222-3333-4444-555555555555'', VText (vk_key ''index'' ''did:acumius:a'' ''11111111-2222-3333-4444-555555555555''), 60000000)],
      k_zsets = [(latestKey ''index'' ''did:acumius:a'', [(''11111111-2222-3333-4444-555555555555'', 0)])], k_now = 0, k_outcomes = []\<rparr>"
  have store: "vk_Store ?c Inr 60 0 (sample_working ''index'') empty_server = (Inr (), ?s)"
    by (simp add: vk_Store_def sample_working_def empty_server_def reference_server_def server_call_def
        server_set_def server_zadd_def server_zrem_def attempt_def attempt_or_def ret_def vk_key_def indexKey_def latestKey_def Let_def)
  obtain r s2 where run: "vk_Search 1 ?c ?q ?s = (r, s2)" by fastforce
  have "\<forall>k m. server_entry ?s k = Some (VMemory m) \<longrightarrow> k = vk_key (m_Namespace m) (m_AgentDID m) (m_ID m)"
    by (auto simp: server_entry_def sample_working_def split: if_splits)
  with vk_Search_sound [OF reference.kv_client_axioms run]
  have "\<forall>res. r = Inr res \<longrightarrow> res_Results res = [] \<and> res_Total res = 0"
    by (auto simp: search_hit_def)
  moreover obtain res where "r = Inr res" "res_Limit res = 5" "res_Offset res = 0"
    using run by (auto simp: vk_Search_def attempt_def ret_def reference_server_def server_call_def Let_def
        split: prod.splits sum.splits)
  ultimately show ?thesis using store run by (intro exI [of _ ?s] exI [of _ s2]) auto
qed

end
