(* ===== verification/Base58.thy ===== *)
theory Base58
  imports Prelude
begin

text \<open>
  The base58 text of a key. The service uses a library for it; what its identities rely on is
  the interface \<open>base58_codec\<close>: decoding and encoding are inverse to each other. The
  positional code with the Bitcoin alphabet (leading zero bytes become leading ones) is
  given here as an implementation of that interface.
\<close>

section \<open>The interface\<close>

locale base58_codec =
  fixes enc :: "bytes \<Rightarrow> string"
    and dec :: "string \<Rightarrow> error + bytes"
  assumes dec_enc: "b \<noteq> [] \<Longrightarrow> dec (enc b) = Inr b"
    and enc_dec: "dec s = Inr b \<Longrightarrow> enc b = s"
    and enc_nonempty: "b \<noteq> [] \<Longrightarrow> enc b \<noteq> []"
begin

lemma enc_inj: "b \<noteq> [] \<Longrightarrow> b' \<noteq> [] \<Longrightarrow> enc b = enc b' \<Longrightarrow> b = b'"
  using dec_enc by (metis sum.inject(2))

lemma dec_iff: "b \<noteq> [] \<Longrightarrow> dec s = Inr b \<longleftrightarrow> s = enc b"
  using dec_enc enc_dec by blast

end

section \<open>Positional numbers\<close>

definition of_digits :: "nat \<Rightarrow> nat list \<Rightarrow> nat" where
  "of_digits b ds = foldl (\<lambda>a d. a * b + d) 0 ds"

function to_digits :: "nat \<Rightarrow> nat \<Rightarrow> nat list" where
  "to_digits b n = (if n = 0 \<or> b < 2 then [] else to_digits b (n div b) @ [n mod b])"
  by pat_completeness auto
termination
  by (relation "measure snd") auto

declare to_digits.simps [simp del]

lemma to_digits_0 [simp]: "to_digits b 0 = []"
  by (simp add: to_digits.simps)

lemma of_digits_Nil [simp]: "of_digits b [] = 0"
  by (simp add: of_digits_def)

lemma of_digits_snoc [simp]: "of_digits b (ds @ [d]) = of_digits b ds * b + d"
  by (simp add: of_digits_def)

lemma of_digits_zeros: "of_digits b (replicate k 0 @ ds) = of_digits b ds"
  by (induction k) (simp_all add: of_digits_def)

lemma of_digits_to_digits [simp]: "2 \<le> b \<Longrightarrow> of_digits b (to_digits b n) = n"
proof (induction b n rule: to_digits.induct)
  case (1 b n)
  then show ?case by (cases "n = 0") (simp_all add: to_digits.simps [of b n])
qed

lemma to_digits_less: "2 \<le> b \<Longrightarrow> d \<in> set (to_digits b n) \<Longrightarrow> d < b"
proof (induction b n rule: to_digits.induct)
  case (1 b n)
  then show ?case
    by (cases "n = 0") (auto simp: to_digits.simps [of b n] split: if_splits)
qed

lemma to_digits_no_leading_zero: "to_digits b n = 0 # ds \<Longrightarrow> False"
proof (induction b n arbitrary: ds rule: to_digits.induct)
  case (1 b n)
  show ?case
  proof (cases "n = 0 \<or> b < 2")
    case True
    then show ?thesis using "1.prems" by (simp add: to_digits.simps [of b n])
  next
    case False
    then have eq: "to_digits b (n div b) @ [n mod b] = 0 # ds"
      using "1.prems" by (simp add: to_digits.simps [of b n])
    show ?thesis
    proof (cases "to_digits b (n div b)")
      case Nil
      then have "n div b = 0" using False of_digits_to_digits [of b "n div b"] by simp
      then show ?thesis using eq Nil False by (simp add: div_eq_0_iff)
    next
      case (Cons d es)
      then show ?thesis using eq "1.IH" False by auto
    qed
  qed
qed

lemma of_digits_pos: "0 < d \<Longrightarrow> 2 \<le> b \<Longrightarrow> 0 < of_digits b (d # ds)"
proof (induction ds rule: rev_induct)
  case Nil
  then show ?case by (simp add: of_digits_def)
next
  case (snoc e es)
  then show ?case using of_digits_snoc [of b "d # es" e] by simp
qed

lemma to_digits_of_digits:
  assumes "2 \<le> b" and "\<forall>d \<in> set ds. d < b" and "ds = [] \<or> 0 < hd ds"
  shows "to_digits b (of_digits b ds) = ds"
  using assms(2,3)
proof (induction ds rule: rev_induct)
  case Nil
  then show ?case by (simp add: to_digits.simps)
next
  case (snoc d ds)
  have IH: "to_digits b (of_digits b ds) = ds"
    using snoc by (cases ds) auto
  have pos: "0 < of_digits b (ds @ [d])"
    using snoc.prems assms(1) of_digits_pos [of "hd (ds @ [d])" b "tl (ds @ [d])"] by (cases ds) auto
  have "d < b" using snoc.prems by simp
  then show ?case
    using IH pos assms(1) by (subst to_digits.simps) (simp add: div_mult_self3)
qed

section \<open>The code\<close>

definition alphabet :: string where
  "alphabet = ''123456789ABCDEFGHJKLMNPQRSTUVWXYZabcdefghijkmnopqrstuvwxyz''"

definition digit_char :: "nat \<Rightarrow> char" where
  "digit_char d = alphabet ! d"

definition char_digit :: "char \<Rightarrow> nat" where
  "char_digit c = length (takeWhile (\<lambda>a. a \<noteq> c) alphabet)"

definition byte_vals :: "bytes \<Rightarrow> nat list" where
  "byte_vals b = map of_char b"

definition b58_encode :: "bytes \<Rightarrow> string" where
  "b58_encode b =
     (let z = length (takeWhile (\<lambda>v. v = 0) (byte_vals b))
      in replicate z (CHR ''1'') @ map digit_char (to_digits 58 (of_digits 256 (byte_vals b))))"

definition b58_decode :: "string \<Rightarrow> error + bytes" where
  "b58_decode s =
     (if s = [] then Inl (Plain ''zero length string'')
      else if \<not> set s \<subseteq> set alphabet then Inl (Plain ''invalid base58 digit'')
      else
        let z = length (takeWhile (\<lambda>c. c = CHR ''1'') s)
        in Inr (map char_of (replicate z 0 @ to_digits 256 (of_digits 58 (map char_digit s)))))"

lemma alphabet_facts: "length alphabet = 58" "distinct alphabet" "alphabet ! 0 = CHR ''1''"
  by (simp_all add: alphabet_def)

lemma char_digit_char: "d < 58 \<Longrightarrow> char_digit (digit_char d) = d"
proof -
  assume d: "d < 58"
  have "takeWhile (\<lambda>a. a \<noteq> alphabet ! d) alphabet = take d alphabet"
    using d alphabet_facts by (intro takeWhile_eq_take_P_nth) (auto simp: nth_eq_iff_index_eq)
  then show ?thesis using d alphabet_facts by (simp add: char_digit_def digit_char_def)
qed

lemma digit_char_digit: "c \<in> set alphabet \<Longrightarrow> digit_char (char_digit c) = c"
  using char_digit_char alphabet_facts by (metis digit_char_def in_set_conv_nth)

lemma char_digit_less: "c \<in> set alphabet \<Longrightarrow> char_digit c < 58"
  using char_digit_char alphabet_facts by (metis digit_char_def in_set_conv_nth)

lemma char_digit_zero: "c \<in> set alphabet \<Longrightarrow> char_digit c = 0 \<longleftrightarrow> c = CHR ''1''"
  using digit_char_digit [of c] alphabet_facts char_digit_char [of 0] by (auto simp: digit_char_def)

lemma digit_char_in: "d < 58 \<Longrightarrow> digit_char d \<in> set alphabet"
  by (simp add: digit_char_def alphabet_facts)

lemma byte_vals_less: "\<forall>v \<in> set (byte_vals b). v < 256"
  by (auto simp: byte_vals_def)

lemma char_of_byte_vals [simp]: "map char_of (byte_vals b) = b"
  by (simp add: byte_vals_def map_idI)

lemma split_zeros:
  "\<exists>ds. xs = replicate (length (takeWhile (\<lambda>v. v = z) xs)) z @ ds \<and>
     ds = dropWhile (\<lambda>v. v = z) xs \<and> (ds = [] \<or> hd ds \<noteq> z)"
proof (intro exI conjI)
  have "takeWhile (\<lambda>v. v = z) xs = replicate (length (takeWhile (\<lambda>v. v = z) xs)) z"
    by (rule replicate_eqI) (auto dest: set_takeWhileD)
  then show "xs = replicate (length (takeWhile (\<lambda>v. v = z) xs)) z @ dropWhile (\<lambda>v. v = z) xs"
    by (metis takeWhile_dropWhile_id)
  show "dropWhile (\<lambda>v. v = z) xs = [] \<or> hd (dropWhile (\<lambda>v. v = z) xs) \<noteq> z"
    using hd_dropWhile by blast
qed simp

lemma b58_decode_encode:
  assumes "b \<noteq> []"
  shows "b58_decode (b58_encode b) = Inr b"
proof -
  obtain ds where vals: "byte_vals b = replicate (length (takeWhile (\<lambda>v. v = 0) (byte_vals b))) 0 @ ds"
    and ds: "ds = [] \<or> hd ds \<noteq> 0"
    using split_zeros [of "byte_vals b" 0] by blast
  define z where "z = length (takeWhile (\<lambda>v. v = 0) (byte_vals b))"
  define n where "n = of_digits 256 ds"
  have vals': "byte_vals b = replicate z 0 @ ds" using vals by (simp add: z_def)
  have n: "of_digits 256 (byte_vals b) = n" by (simp add: vals' of_digits_zeros n_def)
  define cs where "cs = map digit_char (to_digits 58 n)"
  have enc: "b58_encode b = replicate z (CHR ''1'') @ cs"
    by (simp add: b58_encode_def z_def n cs_def)
  have cs_in: "set cs \<subseteq> set alphabet"
    by (auto simp: cs_def intro!: digit_char_in to_digits_less)
  have cs_digits: "map char_digit cs = to_digits 58 n"
    by (auto simp: cs_def char_digit_char to_digits_less intro!: map_idI)
  have one: "CHR ''1'' \<in> set alphabet" "char_digit (CHR ''1'') = 0"
    by (simp_all add: alphabet_def char_digit_def)
  have no_one: "cs = [] \<or> hd cs \<noteq> CHR ''1''"
  proof (cases "to_digits 58 n")
    case (Cons d es)
    then have "d \<noteq> 0" "d < 58"
      using to_digits_no_leading_zero [of 58 n es] to_digits_less [of 58 d n] by auto
    then have "char_digit (digit_char d) \<noteq> 0" by (simp add: char_digit_char)
    then show ?thesis using one by (auto simp: cs_def Cons)
  qed (simp add: cs_def)
  have tw: "takeWhile (\<lambda>c. c = CHR ''1'') (replicate z (CHR ''1'') @ cs) = replicate z (CHR ''1'')"
    using no_one by (cases cs) (auto simp: takeWhile_append)
  have dd: "of_digits 58 (map char_digit (replicate z (CHR ''1'') @ cs)) = n"
    by (simp add: one of_digits_zeros cs_digits)
  have digits_n: "to_digits 256 n = ds"
    unfolding n_def using ds byte_vals_less [of b] vals'
    by (intro to_digits_of_digits) (auto simp: neq_Nil_conv)
  have ne: "replicate z (CHR ''1'') @ cs \<noteq> []"
  proof
    assume "replicate z (CHR ''1'') @ cs = []"
    then have "z = 0" "to_digits 58 n = []" by (simp_all add: cs_def)
    then have "n = 0" using of_digits_to_digits [of 58 n] by simp
    then have "ds = []" using digits_n by (simp add: to_digits.simps)
    then show False using vals' \<open>z = 0\<close> assms by (simp add: byte_vals_def)
  qed
  show ?thesis
    unfolding enc b58_decode_def Let_def tw dd digits_n
    using ne cs_in one vals' char_of_byte_vals [of b] by auto
qed

lemma b58_encode_decode:
  assumes "b58_decode s = Inr b"
  shows "b58_encode b = s"
proof -
  have s: "s \<noteq> []" "set s \<subseteq> set alphabet"
    and b: "b = map char_of (replicate (length (takeWhile (\<lambda>c. c = CHR ''1'') s)) (0::nat) @
              to_digits 256 (of_digits 58 (map char_digit s)))"
    using assms by (auto simp: b58_decode_def Let_def split: if_splits)
  obtain cs where s_eq: "s = replicate (length (takeWhile (\<lambda>c. c = CHR ''1'') s)) (CHR ''1'') @ cs"
    and rest: "cs = [] \<or> hd cs \<noteq> CHR ''1''"
    using split_zeros [of s "CHR ''1''"] by blast
  define z where "z = length (takeWhile (\<lambda>c. c = CHR ''1'') s)"
  define n where "n = of_digits 58 (map char_digit cs)"
  have s': "s = replicate z (CHR ''1'') @ cs" using s_eq by (simp add: z_def)
  have cs_in: "set cs \<subseteq> set alphabet" using s(2) s' by auto
  have one: "char_digit (CHR ''1'') = 0" by (simp add: alphabet_def char_digit_def)
  have val: "of_digits 58 (map char_digit s) = n"
    by (simp add: s' one of_digits_zeros n_def)
  define ds where "ds = to_digits 256 n"
  have bv: "byte_vals b = replicate z 0 @ ds"
    unfolding b val z_def [symmetric] ds_def byte_vals_def
    by (auto intro!: map_idI dest: to_digits_less [rotated])
  have no_zero: "ds = [] \<or> hd ds \<noteq> 0"
    using to_digits_no_leading_zero [of 256 n] by (cases ds) (auto simp: ds_def)
  have tw: "takeWhile (\<lambda>v. v = 0) (replicate z 0 @ ds) = replicate z (0::nat)"
    using no_zero by (cases ds) (auto simp: takeWhile_append)
  have num: "of_digits 256 (replicate z 0 @ ds) = n"
    by (simp add: of_digits_zeros ds_def)
  have "to_digits 58 n = map char_digit cs"
    unfolding n_def
  proof (rule to_digits_of_digits)
    show "\<forall>d \<in> set (map char_digit cs). d < 58" using cs_in char_digit_less by auto
    show "map char_digit cs = [] \<or> 0 < hd (map char_digit cs)"
      using rest cs_in char_digit_zero by (cases cs) auto
  qed simp
  then have "map digit_char (to_digits 58 n) = cs"
    using cs_in digit_char_digit by (auto intro!: map_idI)
  then show ?thesis
    unfolding b58_encode_def Let_def bv tw num using s' by simp
qed

interpretation b58: base58_codec b58_encode b58_decode
proof
  fix b :: bytes
  assume ne: "b \<noteq> []"
  show "b58_decode (b58_encode b) = Inr b" using ne by (rule b58_decode_encode)
  then show "b58_encode b \<noteq> []" by (auto simp: b58_decode_def)
next
  fix s b
  assume "b58_decode s = Inr b"
  then show "b58_encode b = s" by (rule b58_encode_decode)
qed

end
