(* ===== verification/Trust_Identity.thy ===== *)
theory Trust_Identity
  imports Base58
begin

text \<open>
  \<open>internal/trust/identity.go\<close>: DIDs made from Ed25519 public keys, and the signatures over
  memories of \<open>internal/trust/attestation.go\<close>. The base58 codec is the argument \<open>enc\<close> or
  \<open>dec\<close>; Ed25519 key generation, signing and verification are arguments too.
\<close>

section \<open>DIDs\<close>

definition did_prefix :: string where
  "did_prefix = ''did:acumius:''"

definition PublicKeySize :: nat where
  "PublicKeySize = 32"

definition PrivateKeySize :: nat where
  "PrivateKeySize = 64"

text \<open>\<open>gen\<close> is what \<open>ed25519.GenerateKey\<close> returns.\<close>

definition GenerateKeypair :: "error + bytes \<times> bytes \<Rightarrow> error + bytes \<times> bytes" where
  "GenerateKeypair gen = (case gen of Inl e \<Rightarrow> Inl e | Inr (pub, priv) \<Rightarrow> Inr (pub, priv))"

definition GenerateDID :: "(bytes \<Rightarrow> string) \<Rightarrow> bytes \<Rightarrow> string" where
  "GenerateDID enc pubKey = did_prefix @ enc pubKey"

definition ParseDID :: "(string \<Rightarrow> error + bytes) \<Rightarrow> string \<Rightarrow> error + bytes" where
  "ParseDID dec did =
     (if \<not> HasPrefix did did_prefix
      then Inl (Plain ''invalid DID prefix: must start with did:acumius:'')
      else
        let encoded = TrimPrefix did did_prefix
        in if length encoded = 0 then Inl (Plain ''invalid DID: empty base58 key'')
           else (case dec encoded of
                   Inl e \<Rightarrow> Inl e
                 | Inr pubKeyBytes \<Rightarrow>
                     if length pubKeyBytes \<noteq> PublicKeySize
                     then Inl (Plain ''invalid public key size'')
                     else Inr pubKeyBytes))"

context base58_codec
begin

lemma ParseDID_GenerateDID: "length pub = PublicKeySize \<Longrightarrow> ParseDID dec (GenerateDID enc pub) = Inr pub"
  using dec_enc [of pub] enc_nonempty [of pub]
  by (cases pub) (auto simp: ParseDID_def GenerateDID_def PublicKeySize_def Let_def)

lemma ParseDID_accepts:
  "ParseDID dec did = Inr pub \<Longrightarrow> length pub = PublicKeySize \<and> did = GenerateDID enc pub"
  using enc_dec [of "TrimPrefix did did_prefix" pub]
  by (auto simp: ParseDID_def GenerateDID_def Let_def HasPrefix_iff split: if_splits sum.splits)

lemma ParseDID_iff:
  "ParseDID dec did = Inr pub \<longleftrightarrow> length pub = PublicKeySize \<and> did = GenerateDID enc pub"
  using ParseDID_GenerateDID ParseDID_accepts by blast

lemma GenerateDID_wrong_size:
  assumes "pub \<noteq> []" and "length pub \<noteq> PublicKeySize"
  shows "ParseDID dec (GenerateDID enc pub) = Inl (Plain ''invalid public key size'')"
  using assms dec_enc [of pub] enc_nonempty [of pub]
  by (auto simp: ParseDID_def GenerateDID_def Let_def)

end

text \<open>
  C28: DIDs and 32-byte public keys correspond one to one. For any codec in which decoding and
  encoding are inverse, \<open>ParseDID\<close> accepts a DID with a key exactly when the key has 32 bytes
  and the DID is the one \<open>GenerateDID\<close> makes from it: formatting and parsing round-trip, no
  other text is accepted for that key, and no key of another size is ever returned.
\<close>

theorem did_roundtrip:
  assumes "base58_codec enc dec"
  shows "ParseDID dec did = Inr pub \<longleftrightarrow> length pub = PublicKeySize \<and> did = GenerateDID enc pub"
  using assms by (rule base58_codec.ParseDID_iff)

theorem did_roundtrip_witness:
  "ParseDID b58_decode (GenerateDID b58_encode (replicate 32 (CHR ''k''))) = Inr (replicate 32 (CHR ''k''))"
  using did_roundtrip [OF b58.base58_codec_axioms, of "GenerateDID b58_encode (replicate 32 (CHR ''k''))"
      "replicate 32 (CHR ''k'')"]
  by (simp add: PublicKeySize_def)

section \<open>Signatures over memories\<close>

definition generatePayload :: "string \<Rightarrow> bytes \<Rightarrow> bytes" where
  "generatePayload memoryID content = memoryID @ '':'' @ content"

definition SignMemory ::
  "(bytes \<Rightarrow> bytes \<Rightarrow> bytes) \<Rightarrow> bytes \<Rightarrow> string \<Rightarrow> bytes \<Rightarrow> error + bytes" where
  "SignMemory edsign privKey memoryID content =
     (if length privKey \<noteq> PrivateKeySize then Inl (Plain ''invalid private key size'')
      else Inr (edsign privKey (generatePayload memoryID content)))"

definition VerifyMemorySignature ::
  "(bytes \<Rightarrow> bytes \<Rightarrow> bytes \<Rightarrow> bool) \<Rightarrow> bytes \<Rightarrow> string \<Rightarrow> bytes \<Rightarrow> bytes \<Rightarrow> bool" where
  "VerifyMemorySignature edverify pubKey memoryID content signature =
     (if length pubKey \<noteq> PublicKeySize then False
      else edverify pubKey (generatePayload memoryID content) signature)"

lemma split_at_char:
  "x \<notin> set a \<Longrightarrow> x \<notin> set b \<Longrightarrow> a @ x # c = b @ x # d \<Longrightarrow> a = b \<and> c = d"
proof (induction a arbitrary: b)
  case Nil
  then show ?case by (cases b) auto
next
  case (Cons y a)
  then show ?case by (cases b) auto
qed

lemma generatePayload_inj:
  "CHR '':'' \<notin> set i \<Longrightarrow> CHR '':'' \<notin> set i' \<Longrightarrow> generatePayload i c = generatePayload i' c' \<Longrightarrow>
     i = i' \<and> c = c'"
  by (rule split_at_char) (auto simp: generatePayload_def)



end
