(* ===== verification/Trust_Reputation.thy ===== *)
theory Trust_Reputation
  imports Trust_Registry Durations
begin

text \<open>
  \<open>internal/trust/reputation.go\<close>: the score formula, the event log that moves a score, and the
  recalculation from the tables.
\<close>

section \<open>The formula\<close>

record ReputationFactors =
  rf_CompletionRate :: rat
  rf_PeerVerifications :: int
  rf_MemoryAttestations :: int
  rf_PolicyViolations :: int
  rf_DisputesLost :: int
  rf_DaysInactive :: int

text \<open>
  The \<open>float64\<close> sum, over a rounding \<open>fl\<close> of each operation. The products of counts are
  64-bit integer products, converted afterwards.
\<close>

definition score_sum :: "(rat \<Rightarrow> rat) \<Rightarrow> ReputationFactors \<Rightarrow> rat" where
  "score_sum fl factors =
     (let score = 500;
          score = fl (score + fl (rf_CompletionRate factors * 200));
          score = fl (score + fl (of_int (mul64 (rf_PeerVerifications factors) 50)));
          score = fl (score + fl (of_int (mul64 (rf_MemoryAttestations factors) 25)));
          score = fl (score - fl (of_int (mul64 (rf_PolicyViolations factors) 100)));
          score = fl (score - fl (of_int (mul64 (rf_DisputesLost factors) 150)))
      in fl (score - fl (of_int (mul64 (rf_DaysInactive factors) 1))))"

text \<open>
  \<open>int(f)\<close> of a \<open>float64\<close> with an integral value; out of the range of \<open>int\<close> the result is up
  to the implementation, the argument \<open>oob\<close>.
\<close>

definition int_of_float :: "(int \<Rightarrow> int) \<Rightarrow> int \<Rightarrow> int" where
  "int_of_float oob z = (if int64 z then z else oob z)"

definition CalculateReputation :: "(int \<Rightarrow> int) \<Rightarrow> ReputationFactors \<Rightarrow> int" where
  "CalculateReputation oob factors =
     (let rounded = int_of_float oob (math_Round (score_sum fl64 factors))
      in if rounded < 0 then 0 else if rounded > 1000 then 1000 else rounded)"

text \<open>The abstract score: the documented formula over the integers, cut to 0..1000.\<close>

definition clamp_score :: "int \<Rightarrow> int" where
  "clamp_score x = max 0 (min 1000 x)"

definition formula :: "int \<Rightarrow> ReputationFactors \<Rightarrow> int" where
  "formula completion f =
     500 + completion + rf_PeerVerifications f * 50 + rf_MemoryAttestations f * 25
       - rf_PolicyViolations f * 100 - rf_DisputesLost f * 150 - rf_DaysInactive f"

text \<open>Counts of at most \<open>2 ^ 40\<close>, far above what the tables hold.\<close>

definition moderate :: "ReputationFactors \<Rightarrow> bool" where
  "moderate f \<longleftrightarrow>
     \<bar>rf_PeerVerifications f\<bar> \<le> 2 ^ 40 \<and> \<bar>rf_MemoryAttestations f\<bar> \<le> 2 ^ 40 \<and>
     \<bar>rf_PolicyViolations f\<bar> \<le> 2 ^ 40 \<and> \<bar>rf_DisputesLost f\<bar> \<le> 2 ^ 40 \<and>
     \<bar>rf_DaysInactive f\<bar> \<le> 2 ^ 40"

lemma clamp_score_range: "0 \<le> clamp_score x \<and> clamp_score x \<le> 1000"
  by (simp add: clamp_score_def)

lemma clamp_score_mono: "x \<le> y \<Longrightarrow> clamp_score x \<le> clamp_score y"
  by (simp add: clamp_score_def)

lemma clamp_score_id: "0 \<le> x \<Longrightarrow> x \<le> 1000 \<Longrightarrow> clamp_score x = x"
  by (simp add: clamp_score_def)

lemma CalculateReputation_clamp:
  "CalculateReputation oob f = clamp_score (int_of_float oob (math_Round (score_sum fl64 f)))"
  by (simp add: CalculateReputation_def clamp_score_def Let_def)

lemma moderate_products:
  assumes "moderate f"
  shows "mul64 (rf_PeerVerifications f) 50 = rf_PeerVerifications f * 50"
    and "mul64 (rf_MemoryAttestations f) 25 = rf_MemoryAttestations f * 25"
    and "mul64 (rf_PolicyViolations f) 100 = rf_PolicyViolations f * 100"
    and "mul64 (rf_DisputesLost f) 150 = rf_DisputesLost f * 150"
    and "mul64 (rf_DaysInactive f) 1 = rf_DaysInactive f"
  using assms by (auto simp: moderate_def int64_def abs_le_iff mul64_exact)

context float_rounding
begin

lemma fl_step_add:
  assumes "\<bar>a\<bar> \<le> 2 ^ 50" and "\<bar>b\<bar> \<le> 2 ^ 50"
  shows "fl (of_int a + fl (of_int b)) = of_int (a + b)"
proof -
  have "fl (of_int b) = of_int b" using assms by (intro fl_int) auto
  moreover have "fl (of_int a + of_int b) = of_int (a + b)" using assms by (intro fl_add_int) auto
  ultimately show ?thesis by simp
qed

lemma fl_step_diff:
  assumes "\<bar>a\<bar> \<le> 2 ^ 50" and "\<bar>b\<bar> \<le> 2 ^ 50"
  shows "fl (of_int a - fl (of_int b)) = of_int (a - b)"
proof -
  have "fl (of_int b) = of_int b" using assms by (intro fl_int) auto
  moreover have "fl (of_int a - of_int b) = of_int (a - b)" using assms by (intro fl_diff_int) auto
  ultimately show ?thesis by simp
qed

lemma score_sum_exact:
  assumes "moderate f" and "rf_CompletionRate f * 200 = of_int n" and "\<bar>n\<bar> \<le> 2 ^ 40"
  shows "score_sum fl f = of_int (formula n f)"
proof -
  note bounds = assms(1)[unfolded moderate_def]
  define s1 where "s1 = 500 + n"
  define s2 where "s2 = s1 + rf_PeerVerifications f * 50"
  define s3 where "s3 = s2 + rf_MemoryAttestations f * 25"
  define s4 where "s4 = s3 - rf_PolicyViolations f * 100"
  define s5 where "s5 = s4 - rf_DisputesLost f * 150"
  have small: "\<bar>s1\<bar> \<le> 2 ^ 50" "\<bar>s2\<bar> \<le> 2 ^ 50" "\<bar>s3\<bar> \<le> 2 ^ 50" "\<bar>s4\<bar> \<le> 2 ^ 50" "\<bar>s5\<bar> \<le> 2 ^ 50"
    using bounds assms(3) unfolding s1_def s2_def s3_def s4_def s5_def by (auto simp: abs_le_iff)
  have e1: "fl (500 + fl (rf_CompletionRate f * 200)) = of_int s1"
    using fl_step_add [of 500 n] assms(2,3) by (simp add: s1_def)
  have e2: "fl (of_int s1 + fl (of_int (rf_PeerVerifications f * 50))) = of_int s2"
    unfolding s2_def using small(1) bounds by (intro fl_step_add) (auto simp: abs_le_iff)
  have e3: "fl (of_int s2 + fl (of_int (rf_MemoryAttestations f * 25))) = of_int s3"
    unfolding s3_def using small(2) bounds by (intro fl_step_add) (auto simp: abs_le_iff)
  have e4: "fl (of_int s3 - fl (of_int (rf_PolicyViolations f * 100))) = of_int s4"
    unfolding s4_def using small(3) bounds by (intro fl_step_diff) (auto simp: abs_le_iff)
  have e5: "fl (of_int s4 - fl (of_int (rf_DisputesLost f * 150))) = of_int s5"
    unfolding s5_def using small(4) bounds by (intro fl_step_diff) (auto simp: abs_le_iff)
  have e6: "fl (of_int s5 - fl (of_int (rf_DaysInactive f))) = of_int (s5 - rf_DaysInactive f)"
    using small(5) bounds by (intro fl_step_diff) (auto simp: abs_le_iff)
  show ?thesis
    unfolding score_sum_def Let_def moderate_products [OF assms(1)] e1 e2 e3 e4 e5 e6
    by (simp add: formula_def s1_def s2_def s3_def s4_def s5_def)
qed

lemma score_sum_mono:
  assumes "moderate f" and "moderate g"
    and "rf_CompletionRate f \<le> rf_CompletionRate g"
    and "rf_PeerVerifications f \<le> rf_PeerVerifications g"
    and "rf_MemoryAttestations f \<le> rf_MemoryAttestations g"
    and "rf_PolicyViolations g \<le> rf_PolicyViolations f"
    and "rf_DisputesLost g \<le> rf_DisputesLost f"
    and "rf_DaysInactive g \<le> rf_DaysInactive f"
  shows "score_sum fl f \<le> score_sum fl g"
  unfolding score_sum_def Let_def moderate_products [OF assms(1)] moderate_products [OF assms(2)]
  using assms(3-8) by (intro fl_mono add_mono diff_mono) (auto intro: fl_mono)

lemma fl_abs_le: "\<bar>x\<bar> \<le> of_int z \<Longrightarrow> z \<le> 2 ^ 52 \<Longrightarrow> \<bar>fl x\<bar> \<le> of_int z"
  using fl_le_int [of z x] fl_ge_int [of "- z" x] by (auto simp: abs_le_iff)

lemma score_sum_bounded:
  assumes "moderate f" and "0 \<le> rf_CompletionRate f" and "rf_CompletionRate f \<le> 1"
  shows "\<bar>score_sum fl f\<bar> \<le> 2 ^ 51"
proof -
  let ?lo = "f\<lparr>rf_CompletionRate := 0\<rparr>" and ?hi = "f\<lparr>rf_CompletionRate := 1\<rparr>"
  have m: "moderate ?lo" "moderate ?hi" using assms(1) by (simp_all add: moderate_def)
  have "- (2 ^ 51) \<le> formula 0 f" and "formula 200 f \<le> 2 ^ 51"
    using assms(1) by (auto simp: formula_def moderate_def abs_le_iff)
  then have f: "of_int (- (2 ^ 51)) \<le> rat_of_int (formula 0 f)"
    "rat_of_int (formula 200 f) \<le> of_int (2 ^ 51)"
    by (simp_all only: of_int_le_iff)
  have "score_sum fl ?lo = of_int (formula 0 f)"
    using score_sum_exact [OF m(1), of 0] by (simp add: formula_def)
  moreover have "score_sum fl ?hi = of_int (formula 200 f)"
    using score_sum_exact [OF m(2), of 200] by (simp add: formula_def)
  moreover have "score_sum fl ?lo \<le> score_sum fl f"
    by (rule score_sum_mono) (use m assms in simp_all)
  moreover have "score_sum fl f \<le> score_sum fl ?hi"
    by (rule score_sum_mono) (use m assms in simp_all)
  ultimately show ?thesis using f by (simp add: abs_le_iff)
qed

end

lemma int_of_float_round:
  assumes "\<bar>x\<bar> \<le> 2 ^ 51"
  shows "int_of_float oob (math_Round x) = math_Round x"
proof -
  have "math_Round x \<le> math_Round (of_int (2 ^ 51))" "math_Round (of_int (- (2 ^ 51))) \<le> math_Round x"
    using assms by (auto simp: abs_le_iff intro!: math_Round_mono)
  then show ?thesis unfolding math_Round_int by (simp add: int_of_float_def int64_def)
qed

text \<open>
  C19: the score is the documented formula, cut to 0..1000. In binary64 arithmetic, with counts
  of at most \<open>2 ^ 40\<close> and a completion rate whose two-hundredfold is an integer \<open>n\<close> (the code
  always passes 1.0, so 200), no step rounds or overflows and \<open>CalculateReputation\<close> returns
  exactly \<open>500 + n + 50 verifications + 25 attestations - 100 violations - 150 disputes -
  days\<close>, clamped, whatever the platform does with out-of-range conversions.
\<close>

theorem CalculateReputation_formula:
  assumes "moderate f" and "rf_CompletionRate f * 200 = of_int n" and "\<bar>n\<bar> \<le> 2 ^ 40"
  shows "CalculateReputation oob f = clamp_score (formula n f)"
proof -
  have "\<bar>formula n f\<bar> \<le> 2 ^ 51"
    using assms(1,3) by (auto simp: formula_def moderate_def abs_le_iff)
  then have "int64 (formula n f)" by (simp add: int64_def abs_le_iff)
  then show ?thesis
    by (simp add: CalculateReputation_clamp binary64.score_sum_exact [OF assms] int_of_float_def)
qed

definition sample_factors :: "rat \<Rightarrow> int \<Rightarrow> ReputationFactors" where
  "sample_factors rate violations =
     \<lparr>rf_CompletionRate = rate, rf_PeerVerifications = 1, rf_MemoryAttestations = 2,
      rf_PolicyViolations = violations, rf_DisputesLost = 1, rf_DaysInactive = 10\<rparr>"

theorem CalculateReputation_formula_witness:
  "CalculateReputation (\<lambda>_. 0) (sample_factors (1 / 2) 3) = 240"
  using CalculateReputation_formula [of "sample_factors (1 / 2) 3" 100 "\<lambda>_. 0"]
  by (simp add: sample_factors_def moderate_def formula_def clamp_score_def)

text \<open>
  C25: better conduct never lowers the score. For any completion rates in 0..1 (not only those
  for which the arithmetic is exact) and counts of at most \<open>2 ^ 40\<close>: a higher completion rate,
  more verifications, more attestations, fewer violations, fewer lost disputes and fewer
  inactive days give a score at least as high, rounding included.
\<close>

theorem CalculateReputation_mono:
  assumes "moderate f" and "moderate g"
    and "0 \<le> rf_CompletionRate f" and "rf_CompletionRate f \<le> rf_CompletionRate g"
    and "rf_CompletionRate g \<le> 1"
    and "rf_PeerVerifications f \<le> rf_PeerVerifications g"
    and "rf_MemoryAttestations f \<le> rf_MemoryAttestations g"
    and "rf_PolicyViolations g \<le> rf_PolicyViolations f"
    and "rf_DisputesLost g \<le> rf_DisputesLost f"
    and "rf_DaysInactive g \<le> rf_DaysInactive f"
  shows "CalculateReputation oob f \<le> CalculateReputation oob g"
proof -
  have f: "\<bar>score_sum fl64 f\<bar> \<le> 2 ^ 51"
    by (rule binary64.score_sum_bounded) (use assms in auto)
  have g: "\<bar>score_sum fl64 g\<bar> \<le> 2 ^ 51"
    by (rule binary64.score_sum_bounded) (use assms in auto)
  have "score_sum fl64 f \<le> score_sum fl64 g"
    by (rule binary64.score_sum_mono) fact+
  then show ?thesis
    unfolding CalculateReputation_clamp int_of_float_round [OF f] int_of_float_round [OF g]
    by (intro clamp_score_mono math_Round_mono)
qed

theorem CalculateReputation_mono_witness:
  "CalculateReputation (\<lambda>_. 0) (sample_factors (1 / 3) 4) \<le>
   CalculateReputation (\<lambda>_. 0) (sample_factors (1 / 2) 3)"
  by (rule CalculateReputation_mono) (simp_all add: sample_factors_def moderate_def)

section \<open>The event log\<close>

text \<open>\<open>INSERT INTO reputation_events\<close>, with the identifier the server generates.\<close>

definition insert_event :: "ReputationEvent \<Rightarrow> unit sql" where
  "insert_event e d =
     (if \<not> int4 (re_ScoreChange e) then Inl (PgError ''22003'')
      else if re_ID e \<in> re_ID ` set (t_reputation_events d) then Inl (PgError ''23505'')
      else if \<not> has_agent (re_AgentDID e) d then Inl (PgError ''23503'')
      else Inr ((), d\<lparr>t_reputation_events := t_reputation_events d @ [e]\<rparr>))"

definition event_row :: "time \<Rightarrow> uuid \<Rightarrow> string \<Rightarrow> string \<Rightarrow> int \<Rightarrow> ReputationEvent" where
  "event_row now eid did ty change =
     \<lparr>re_ID = eid, re_AgentDID = did, re_EventType = ty, re_ScoreChange = change,
      re_CreatedAt = now\<rparr>"

text \<open>\<open>now\<close> is the transaction's \<open>NOW()\<close>.\<close>

definition LogEvent :: "time \<Rightarrow> uuid \<Rightarrow> string \<Rightarrow> string \<Rightarrow> int \<Rightarrow> (conn, unit) proc" where
  "LogEvent now eid agentDID eventType scoreChange =
     with_tx (Wrap ''failed to begin tx'')
       (attempt (tx_stmt (insert_event (event_row now eid agentDID eventType scoreChange)))
          (Wrap ''failed to log event'') (\<lambda>_.
        attempt (tx_row (select_score agentDID))
          (Wrap ''failed to get agent score'') (\<lambda>currentScore.
        let newScore = add64 currentScore scoreChange;
            newScore = (if newScore < 0 then 0 else newScore);
            newScore = (if newScore > 1000 then 1000 else newScore)
        in attempt (tx_stmt (set_reputation newScore (Some now) agentDID))
             (Wrap ''failed to update agent reputation'') (\<lambda>_. ret ()))))"

text \<open>
  What one event does to the tables, as one step: the event is appended and the agent's score
  moves by the change, within 0..1000.
\<close>

definition log_event_spec ::
  "time \<Rightarrow> uuid \<Rightarrow> string \<Rightarrow> string \<Rightarrow> int \<Rightarrow> db \<Rightarrow> (unit \<times> db) option" where
  "log_event_spec now eid did ty change d =
     (case find_agent did d of
        None \<Rightarrow> None
      | Some a \<Rightarrow>
          if int4 change \<and> eid \<notin> re_ID ` set (t_reputation_events d)
          then Some ((), d\<lparr>
                 t_reputation_events := t_reputation_events d @ [event_row now eid did ty change],
                 t_agents := set_where (\<lambda>b. ag_DID b = did)
                   (scored (clamp_score (add64 (ag_ReputationScore a) change)) (Some now))
                   (t_agents d)\<rparr>)
          else None)"

lemma clamp_score_steps:
  "(let a = x; b = (if a < 0 then 0 else a); e = (if b > 1000 then 1000 else b) in k e) =
     k (clamp_score x)"
  by (simp add: clamp_score_def Let_def)

lemma int4_clamp [simp]: "int4 (clamp_score n)"
  using clamp_score_range [of n] by (simp add: int4_def)

lemma insert_event_find: "insert_event e d = Inr (v, d') \<Longrightarrow> find_agent x d' = find_agent x d"
  by (auto simp: insert_event_def split: if_splits)

lemma insert_event_db_ok:
  assumes "insert_event e d = Inr (v, d')" and "db_ok d"
  shows "db_ok d'"
proof -
  have "refs_ok d'" "keys_ok d'" "columns_ok d'"
    using assms by (auto simp: db_ok_defs insert_event_def split: if_splits)
  then show ?thesis by (simp add: db_ok_def)
qed

lemma LogEvent_body_spec:
  assumes "insert_event (event_row now eid did ty change) d = Inr (u, d1)"
    and "select_score did d1 = Some cur"
    and "set_reputation (clamp_score (add64 cur change)) (Some now) did d1 = Inr (n, d2)"
  shows "log_event_spec now eid did ty change d = Some ((), d2)"
  using assms
  by (auto simp: insert_event_def event_row_def select_score_def set_reputation_def
           log_event_spec_def split: if_splits)

lemma LogEvent_atomic: "atomic (LogEvent now eid did ty change) (log_event_spec now eid did ty change)"
  unfolding LogEvent_def
proof (rule atomic_with_tx)
  fix c v c'
  assume "attempt (tx_stmt (insert_event (event_row now eid did ty change)))
          (Wrap ''failed to log event'') (\<lambda>_.
        attempt (tx_row (select_score did))
          (Wrap ''failed to get agent score'') (\<lambda>currentScore.
        let newScore = add64 currentScore change;
            newScore = (if newScore < 0 then 0 else newScore);
            newScore = (if newScore > 1000 then 1000 else newScore)
        in attempt (tx_stmt (set_reputation newScore (Some now) did))
             (Wrap ''failed to update agent reputation'') (\<lambda>_. ret ()))) c = (Inr v, c')"
  then obtain u c1 cur c2 n where
      "tx_stmt (insert_event (event_row now eid did ty change)) c = (Inr u, c1)"
      and "tx_row (select_score did) c1 = (Inr cur, c2)"
      and "tx_stmt (set_reputation (clamp_score (add64 cur change)) (Some now) did) c2 = (Inr n, c')"
    unfolding clamp_score_steps attempt_Inr_iff by (auto simp: ret_def)
  then show "log_event_spec now eid did ty change (c_db c) = Some (v, c_db c')"
    using LogEvent_body_spec [of now eid did ty change "c_db c" u "c_db c1" cur n "c_db c'"]
    by (auto dest!: success_dests)
qed

lemma LogEvent_calm:
  assumes "calm c" and "log_event_spec now eid did ty change (c_db c) = Some ((), d')"
  shows "LogEvent now eid did ty change c = (Inr (), c\<lparr>c_db := d'\<rparr>)"
proof -
  obtain a where a: "find_agent did (c_db c) = Some a"
    and ok: "int4 change" "eid \<notin> re_ID ` set (t_reputation_events (c_db c))"
    and d': "d' = (c_db c)\<lparr>
        t_reputation_events := t_reputation_events (c_db c) @ [event_row now eid did ty change],
        t_agents := set_where (\<lambda>b. ag_DID b = did)
          (scored (clamp_score (add64 (ag_ReputationScore a) change)) (Some now)) (t_agents (c_db c))\<rparr>"
    using assms(2) by (auto simp: log_event_spec_def split: option.splits if_splits)
  have h: "has_agent did (c_db c)" using a by (simp add: has_agent_find)
  show ?thesis
    unfolding LogEvent_def clamp_score_steps
    by (rule with_tx_calm [OF assms(1)])
       (use assms(1) a ok h in \<open>simp add: attempt_def insert_event_def event_row_def select_score_def
          set_reputation_def ret_def d'\<close>)
qed

text \<open>
  C11: logging an event refines one atomic step. Whatever calls the server refuses or whose
  replies are lost, the database after \<open>LogEvent\<close> is the one before or the one in which the
  event is appended and the agent's score has moved to \<open>score + change\<close> within 0..1000 and its
  activity time is the transaction's, never one without the other; a normal return means the
  step was done. On a served connection it is done whenever the agent exists, the change fits
  the column and the generated identifier is new.
\<close>

theorem LogEvent_refines:
  "LogEvent now eid did ty change c = (r, c') \<longrightarrow>
     (c_db c' = c_db c \<or> log_event_spec now eid did ty change (c_db c) = Some ((), c_db c')) \<and>
     (r = Inr () \<longrightarrow> log_event_spec now eid did ty change (c_db c) = Some ((), c_db c')) \<and>
     (calm c \<and> log_event_spec now eid did ty change (c_db c) \<noteq> None \<longrightarrow> r = Inr ())"
proof (intro impI conjI)
  assume run: "LogEvent now eid did ty change c = (r, c')"
  show "c_db c' = c_db c \<or> log_event_spec now eid did ty change (c_db c) = Some ((), c_db c')"
    using atomic_either [OF LogEvent_atomic run] by auto
  { assume "r = Inr ()"
    then show "log_event_spec now eid did ty change (c_db c) = Some ((), c_db c')"
      using atomic_success [OF LogEvent_atomic] run by blast }
  { assume "calm c \<and> log_event_spec now eid did ty change (c_db c) \<noteq> None"
    then obtain d' where "calm c" "log_event_spec now eid did ty change (c_db c) = Some ((), d')" by auto
    from LogEvent_calm [OF this] run show "r = Inr ()" by simp }
qed

theorem LogEvent_refines_witness:
  "\<exists>c'. LogEvent 9 ''e1'' ''did:a'' ''task'' 25 (sample_conn (sample_agents [(''did:a'', 990)])) = (Inr (), c') \<and>
     map ag_ReputationScore (t_agents (c_db c')) = [1000] \<and> length (t_reputation_events (c_db c')) = 1"
proof -
  let ?c = "sample_conn (sample_agents [(''did:a'', 990)])"
  obtain r c' where run: "LogEvent 9 ''e1'' ''did:a'' ''task'' 25 ?c = (r, c')" by fastforce
  have spec: "log_event_spec 9 ''e1'' ''did:a'' ''task'' 25 (c_db ?c) =
      Some ((), (sample_agents [(''did:a'', 990)])\<lparr>
        t_reputation_events := [event_row 9 ''e1'' ''did:a'' ''task'' 25],
        t_agents := [scored 1000 (Some 9) (sample_agent ''did:a'' 990)]\<rparr>)"
    by (simp add: log_event_spec_def sample_agents_def sample_agent_def empty_db_def int4_def
        clamp_score_def add64_exact int64_def)
  have r: "r = Inr ()"
    using LogEvent_refines [of 9 "''e1''" "''did:a''" "''task''" 25 ?c r c', THEN mp, OF run] spec by simp
  then have "c_db c' = (sample_agents [(''did:a'', 990)])\<lparr>
        t_reputation_events := [event_row 9 ''e1'' ''did:a'' ''task'' 25],
        t_agents := [scored 1000 (Some 9) (sample_agent ''did:a'' 990)]\<rparr>"
    using LogEvent_refines [of 9 "''e1''" "''did:a''" "''task''" 25 ?c r c', THEN mp, OF run] spec by simp
  then show ?thesis using run r by simp
qed

section \<open>Recalculation\<close>

definition days_inactive :: "time \<Rightarrow> time \<Rightarrow> int" where
  "days_inactive now lastActive =
     (let days = toward_zero (fl64 (Hours (Since now lastActive) / 24))
      in if days < 0 then 0 else days)"

definition count_row :: "(db \<Rightarrow> nat) \<Rightarrow> (conn, int) proc" where
  "count_row q = db_row (\<lambda>d. Some (int (q d)))"

definition completed_by :: "string \<Rightarrow> db \<Rightarrow> nat" where
  "completed_by did d =
     count_where (\<lambda>v. vf_VerifierDID v = did \<and> vf_Status v = ''completed'') (t_verifications d)"

definition attested_by :: "string \<Rightarrow> db \<Rightarrow> nat" where
  "attested_by did d = count_where (\<lambda>a. at_AgentDID a = did) (t_attestations d)"

definition events_of :: "string \<Rightarrow> string \<Rightarrow> db \<Rightarrow> nat" where
  "events_of did ty d =
     count_where (\<lambda>e. re_AgentDID e = did \<and> re_EventType e = ty) (t_reputation_events d)"

text \<open>
  Six statements without a transaction; \<open>now\<close> is the clock when the days are computed.
\<close>

definition FetchFactorsAndRecalculate ::
  "(int \<Rightarrow> int) \<Rightarrow> time \<Rightarrow> string \<Rightarrow> (conn, int) proc" where
  "FetchFactorsAndRecalculate oob now agentDID =
     attempt (db_row (\<lambda>d. map_option ag_LastActiveAt (find_agent agentDID d)))
       (Wrap ''failed to fetch agent activity'') (\<lambda>lastActive.
     let days = days_inactive now lastActive in
     attempt (count_row (completed_by agentDID)) (Wrap ''failed to count verifications'') (\<lambda>pv.
     attempt (count_row (attested_by agentDID)) (Wrap ''failed to count attestations'') (\<lambda>ma.
     attempt (count_row (events_of agentDID ''policy_violation''))
       (Wrap ''failed to count violations'') (\<lambda>viol.
     attempt (count_row (events_of agentDID ''dispute_lost''))
       (Wrap ''failed to count disputes'') (\<lambda>disp.
     let score = CalculateReputation oob \<lparr>rf_CompletionRate = 1, rf_PeerVerifications = pv,
           rf_MemoryAttestations = ma, rf_PolicyViolations = viol, rf_DisputesLost = disp,
           rf_DaysInactive = days\<rparr>
     in attempt (db_stmt (set_reputation score None agentDID))
          (Wrap ''failed to save recalculated score'') (\<lambda>_. ret score))))))"

lemma days_inactive_bounds: "0 \<le> days_inactive now t \<and> days_inactive now t \<le> 106752"
proof -
  define d where "d = Since now t"
  define h :: int where "h = 3600000000000"
  have quot: "trunc_div d h \<le> 2562047"
  proof (cases "0 \<le> d")
    case True
    then have "trunc_div d h = d div h" by (cases "d = 0") (auto simp: trunc_div_def h_def)
    moreover have "d div h \<le> (2 ^ 63 - 1) div h"
      using Since_bounds(2) [of now t] by (intro zdiv_mono1) (auto simp: d_def h_def)
    ultimately show ?thesis by (simp add: h_def)
  next
    case False
    then have "trunc_div d h \<le> 0" by (simp add: trunc_div_def h_def pos_imp_zdiv_nonneg_iff)
    then show ?thesis by simp
  qed
  have "trunc_mod d h \<le> h"
  proof (cases "0 \<le> d")
    case True
    then have "trunc_div d h = d div h" by (cases "d = 0") (auto simp: trunc_div_def h_def)
    then have "trunc_mod d h = d mod h" by (simp add: trunc_mod_def minus_div_mult_eq_mod)
    then show ?thesis by (simp add: h_def)
  next
    case False
    then have "trunc_div d h = - ((- d) div h)" by (simp add: trunc_div_def h_def)
    then have "trunc_mod d h = - ((- d) mod h)"
      using mult_div_mod_eq [of h "- d"] unfolding trunc_mod_def
      by (metis add_uminus_conv_diff add.commute minus_diff_eq minus_mult_left mult.commute
          add_diff_cancel_left' diff_minus_eq_add)
    moreover have "0 \<le> (- d) mod h" by (simp add: h_def)
    ultimately show ?thesis by (simp add: h_def)
  qed
  then have "rat_of_int (trunc_mod d h) / of_int h \<le> of_int 1"
    by (simp add: h_def pos_divide_le_eq)
  then have "fl64 (rat_of_int (trunc_mod d h) / of_int h) \<le> of_int 1"
    by (rule binary64.fl_le_int [rotated]) simp
  moreover have "rat_of_int (trunc_div d h) \<le> of_int 2562047" using quot by (simp only: of_int_le_iff)
  ultimately have "of_int (trunc_div d h) + fl64 (of_int (trunc_mod d h) / of_int h) \<le> of_int 2562048"
    by simp
  then have "Hours d \<le> of_int 2562048"
    unfolding Hours_def Let_def h_def [symmetric] by (rule binary64.fl_le_int [rotated]) simp
  then have "Hours d / 24 \<le> of_int 106752" by simp
  then have "fl64 (Hours d / 24) \<le> of_int 106752" by (rule binary64.fl_le_int [rotated]) simp
  then have "\<lfloor>fl64 (Hours d / 24)\<rfloor> \<le> 106752" "\<lceil>fl64 (Hours d / 24)\<rceil> \<le> 106752"
    by (simp_all add: floor_le_iff ceiling_le_iff)
  then show ?thesis by (simp add: days_inactive_def toward_zero_def Let_def d_def)
qed

definition factors_of :: "time \<Rightarrow> string \<Rightarrow> Agent \<Rightarrow> db \<Rightarrow> ReputationFactors" where
  "factors_of now did a d =
     \<lparr>rf_CompletionRate = 1, rf_PeerVerifications = int (completed_by did d),
      rf_MemoryAttestations = int (attested_by did d),
      rf_PolicyViolations = int (events_of did ''policy_violation'' d),
      rf_DisputesLost = int (events_of did ''dispute_lost'' d),
      rf_DaysInactive = days_inactive now (ag_LastActiveAt a)\<rparr>"

lemma count_where_le: "count_where p t \<le> length t"
  by (simp add: count_where_def)

lemma count_where_int_le: "int (length t) \<le> n \<Longrightarrow> int (count_where p t) \<le> n"
  using count_where_le [of p t] by linarith

lemma factors_moderate:
  assumes "int (length (t_verifications d)) \<le> 2 ^ 40" and "int (length (t_attestations d)) \<le> 2 ^ 40"
    and "int (length (t_reputation_events d)) \<le> 2 ^ 40"
  shows "moderate (factors_of now did a d)"
  using assms [THEN count_where_int_le] days_inactive_bounds [of now "ag_LastActiveAt a"]
  by (simp add: moderate_def factors_of_def completed_by_def attested_by_def events_of_def)

lemma count_row_calm [simp]: "calm c \<Longrightarrow> count_row q c = (Inr (int (q (c_db c))), c)"
  by (simp add: count_row_def)

text \<open>
  C26: recalculating replaces the score by the documented formula over the tables. On a served
  connection and with at most \<open>2 ^ 40\<close> rows per table, for a registered agent
  \<open>FetchFactorsAndRecalculate\<close> returns 700 plus 50 for each verification the agent completed
  and 25 for each attestation, minus 100 for each policy violation and 150 for each lost
  dispute in the event log and 1 for each inactive day, cut to 0..1000; it stores that score
  in the agent's row and changes nothing else. (So the changes other events made, and the
  500 points of the registration, are forgotten.)
\<close>

theorem Recalculate_formula:
  assumes calm: "calm c" and a: "find_agent did (c_db c) = Some a"
    and "int (length (t_verifications (c_db c))) \<le> 2 ^ 40"
    and "int (length (t_attestations (c_db c))) \<le> 2 ^ 40"
    and "int (length (t_reputation_events (c_db c))) \<le> 2 ^ 40"
  shows "\<exists>score. FetchFactorsAndRecalculate oob now did c =
            (Inr score, c\<lparr>c_db := (c_db c)\<lparr>t_agents :=
               set_where (\<lambda>b. ag_DID b = did) (scored score None) (t_agents (c_db c))\<rparr>\<rparr>) \<and>
          score = clamp_score (700 + 50 * int (completed_by did (c_db c)) + 25 * int (attested_by did (c_db c))
            - 100 * int (events_of did ''policy_violation'' (c_db c))
            - 150 * int (events_of did ''dispute_lost'' (c_db c))
            - days_inactive now (ag_LastActiveAt a))"
proof (intro exI conjI)
  let ?f = "factors_of now did a (c_db c)"
  have mod: "moderate ?f" using assms(3-5) by (rule factors_moderate)
  have score: "CalculateReputation oob ?f = clamp_score (formula 200 ?f)"
    by (rule CalculateReputation_formula [OF mod]) (simp_all add: factors_of_def)
  show "CalculateReputation oob ?f = clamp_score (700 + 50 * int (completed_by did (c_db c))
      + 25 * int (attested_by did (c_db c))
      - 100 * int (events_of did ''policy_violation'' (c_db c))
      - 150 * int (events_of did ''dispute_lost'' (c_db c))
      - days_inactive now (ag_LastActiveAt a))"
    unfolding score by (simp add: formula_def factors_of_def algebra_simps)
  have "int4 (CalculateReputation oob ?f)" unfolding score by simp
  then show "FetchFactorsAndRecalculate oob now did c =
      (Inr (CalculateReputation oob ?f), c\<lparr>c_db := (c_db c)\<lparr>t_agents :=
         set_where (\<lambda>b. ag_DID b = did) (scored (CalculateReputation oob ?f) None) (t_agents (c_db c))\<rparr>\<rparr>)"
    using calm a
    by (simp add: FetchFactorsAndRecalculate_def attempt_def factors_of_def Let_def ret_def
        set_reputation_def)
qed

theorem Recalculate_formula_witness:
  "\<exists>score. FetchFactorsAndRecalculate (\<lambda>_. 0) 2000 ''did:a'' (sample_conn (sample_agents [(''did:a'', 500)])) =
      (Inr score, (sample_conn (sample_agents [(''did:a'', 500)]))\<lparr>c_db :=
        (sample_agents [(''did:a'', 500)])\<lparr>t_agents :=
          set_where (\<lambda>b. ag_DID b = ''did:a'') (scored score None) (t_agents (sample_agents [(''did:a'', 500)]))\<rparr>\<rparr>) \<and>
    score = clamp_score (700 - days_inactive 2000 2000)"
  using Recalculate_formula [of "sample_conn (sample_agents [(''did:a'', 500)])" "''did:a''"
      "sample_agent ''did:a'' 500" "\<lambda>_. 0" 2000]
  by (simp add: sample_agents_def sample_agent_def empty_db_def completed_by_def attested_by_def
      events_of_def)

end
