(* ===== verification/Trust_Attestation.thy ===== *)
theory Trust_Attestation
  imports Trust_Reputation "HOL-Library.Multiset"
begin

text \<open>
  \<open>internal/trust/attestation.go\<close>, the store of attestations: \<open>Save\<close>, \<open>Get\<close> and
  \<open>ListByMemory\<close>. The input function of the column type \<open>UUID\<close>, which accepts several
  spellings and stores the canonical one, is the argument \<open>uuid_in\<close>; \<open>None\<close> is SQLSTATE
  22P02, the server's error for text that is no UUID.
\<close>

section \<open>Statements on \<open>attestations\<close>\<close>

definition insert_attestation ::
  "(string \<Rightarrow> uuid option) \<Rightarrow> uuid \<Rightarrow> Attestation \<Rightarrow> uuid sql" where
  "insert_attestation uuid_in aid a d =
     (case uuid_in (at_MemoryID a) of
        None \<Rightarrow> Inl (PgError ''22P02'')
      | Some mid \<Rightarrow>
          if aid \<in> at_ID ` set (t_attestations d) then Inl (PgError ''23505'')
          else if \<not> has_agent (at_AgentDID a) d then Inl (PgError ''23503'')
          else Inr (aid, d\<lparr>t_attestations :=
                 t_attestations d @ [a\<lparr>at_ID := aid, at_MemoryID := mid\<rparr>]\<rparr>))"

definition select_attestation :: "(string \<Rightarrow> uuid option) \<Rightarrow> string \<Rightarrow> Attestation option sql" where
  "select_attestation uuid_in i d =
     (case uuid_in i of
        None \<Rightarrow> Inl (PgError ''22P02'')
      | Some u \<Rightarrow> Inr (find_row at_ID u (t_attestations d), d))"

text \<open>\<open>ORDER BY created_at DESC\<close>; rows with equal times come in the table's order.\<close>

definition select_by_memory :: "(string \<Rightarrow> uuid option) \<Rightarrow> string \<Rightarrow> Attestation list sql" where
  "select_by_memory uuid_in i d =
     (case uuid_in i of
        None \<Rightarrow> Inl (PgError ''22P02'')
      | Some u \<Rightarrow>
          Inr (sort_key (\<lambda>a. - at_CreatedAt a) (filter (\<lambda>a. at_MemoryID a = u) (t_attestations d)), d))"

section \<open>Operations\<close>

text \<open>
  \<open>t\<close> is \<open>time.Now()\<close>, \<open>now\<close> the transaction's \<open>NOW()\<close> and \<open>aid\<close> the identifier the server
  generates. The value is the attestation the caller's pointer holds afterwards.
\<close>

definition Save ::
  "(string \<Rightarrow> uuid option) \<Rightarrow> time \<Rightarrow> time \<Rightarrow> uuid \<Rightarrow> Attestation \<Rightarrow> (conn, Attestation) proc" where
  "Save uuid_in t now aid attestation =
     (if at_MemoryID attestation = [] then fail (Plain ''memory ID cannot be empty'')
      else if at_AgentDID attestation = [] then fail (Plain ''agent DID cannot be empty'')
      else if length (at_Signature attestation) = 0 then fail (Plain ''signature cannot be empty'')
      else
        let att = (if IsZero (at_CreatedAt attestation) then attestation\<lparr>at_CreatedAt := t\<rparr>
                   else attestation)
        in with_tx (Wrap ''failed to begin tx'')
             (attempt (tx_stmt (insert_attestation uuid_in aid att))
                (Wrap ''failed to insert attestation'') (\<lambda>i.
              attempt (tx_row (select_score (at_AgentDID att)))
                (Wrap ''failed to get agent score'') (\<lambda>currentScore.
              let newScore = add64 currentScore 25;
                  newScore = (if newScore > 1000 then 1000 else newScore)
              in attempt (tx_stmt (set_reputation newScore (Some now) (at_AgentDID att)))
                   (Wrap ''failed to update agent reputation'') (\<lambda>_. ret (att\<lparr>at_ID := i\<rparr>))))))"

definition Get_attestation :: "(string \<Rightarrow> uuid option) \<Rightarrow> string \<Rightarrow> (conn, Attestation) proc" where
  "Get_attestation uuid_in i =
     attempt (attempt (db_stmt (select_attestation uuid_in i)) id scan_row)
       (\<lambda>err. if errors_Is err ErrNoRows then Plain ''attestation not found''
              else Wrap ''failed to get attestation'' err)
       ret"

definition ListByMemory :: "(string \<Rightarrow> uuid option) \<Rightarrow> string \<Rightarrow> (conn, Attestation list) proc" where
  "ListByMemory uuid_in memoryID =
     attempt (db_stmt (select_by_memory uuid_in memoryID)) (Wrap ''failed to list attestations'') ret"

section \<open>One attestation as one step\<close>

definition stamped :: "time \<Rightarrow> Attestation \<Rightarrow> Attestation" where
  "stamped t a = (if IsZero (at_CreatedAt a) then a\<lparr>at_CreatedAt := t\<rparr> else a)"

definition save_spec ::
  "(string \<Rightarrow> uuid option) \<Rightarrow> time \<Rightarrow> time \<Rightarrow> uuid \<Rightarrow> Attestation \<Rightarrow> db \<Rightarrow> (Attestation \<times> db) option" where
  "save_spec uuid_in t now aid a d =
     (case (uuid_in (at_MemoryID a), find_agent (at_AgentDID a) d) of
        (Some mid, Some g) \<Rightarrow>
          let s = min 1000 (add64 (ag_ReputationScore g) 25)
          in if at_MemoryID a \<noteq> [] \<and> at_AgentDID a \<noteq> [] \<and> at_Signature a \<noteq> [] \<and>
                aid \<notin> at_ID ` set (t_attestations d) \<and> int4 s
             then Some ((stamped t a)\<lparr>at_ID := aid\<rparr>, d\<lparr>
                    t_attestations := t_attestations d @ [(stamped t a)\<lparr>at_ID := aid, at_MemoryID := mid\<rparr>],
                    t_agents := set_where (\<lambda>b. ag_DID b = at_AgentDID a) (scored s (Some now)) (t_agents d)\<rparr>)
             else None
      | _ \<Rightarrow> None)"

lemma stamped_fields [simp]:
  "at_ID (stamped t a) = at_ID a" "at_MemoryID (stamped t a) = at_MemoryID a"
  "at_AgentDID (stamped t a) = at_AgentDID a" "at_Signature (stamped t a) = at_Signature a"
  by (simp_all add: stamped_def)

lemma cap_steps: "(let a = x; b = (if a > 1000 then 1000 else a) in k b) = k (min 1000 (x::int))"
  by (simp add: Let_def min_def not_le)

lemma Save_body_spec:
  assumes "insert_attestation uuid_in aid (stamped t a) d = Inr (i, d1)"
    and "select_score (at_AgentDID a) d1 = Some cur"
    and "set_reputation (min 1000 (add64 cur 25)) (Some now) (at_AgentDID a) d1 = Inr (n, d2)"
    and "at_MemoryID a \<noteq> []" "at_AgentDID a \<noteq> []" "at_Signature a \<noteq> []"
  shows "save_spec uuid_in t now aid a d = Some ((stamped t a)\<lparr>at_ID := i\<rparr>, d2)"
  using assms
  by (auto simp: insert_attestation_def select_score_def set_reputation_def save_spec_def Let_def
           split: if_splits option.splits)

lemma Save_atomic: "atomic (Save uuid_in t now aid a) (save_spec uuid_in t now aid a)"
  unfolding Save_def cap_steps stamped_def [symmetric]
  unfolding Let_def
proof (intro atomic_rules, unfold attempt_Inr_iff, goal_cases)
  case (1 c v c')
  then obtain i c1 cur c2 n where
      "tx_stmt (insert_attestation uuid_in aid (stamped t a)) c = (Inr i, c1)"
      and "tx_row (select_score (at_AgentDID a)) c1 = (Inr cur, c2)"
      and "tx_stmt (set_reputation (min 1000 (add64 cur 25)) (Some now) (at_AgentDID a)) c2 = (Inr n, c')"
      and "v = (stamped t a)\<lparr>at_ID := i\<rparr>"
    by (auto simp: ret_def)
  with 1 show ?case
    using Save_body_spec [of uuid_in aid t a "c_db c" i "c_db c1" cur now n "c_db c'"]
    by (auto dest!: success_dests)
qed

lemma Save_calm:
  assumes "calm c" and "save_spec uuid_in t now aid a (c_db c) = Some (v, d')"
  shows "Save uuid_in t now aid a c = (Inr v, c\<lparr>c_db := d'\<rparr>)"
proof -
  obtain mid g where mid: "uuid_in (at_MemoryID a) = Some mid"
    and g: "find_agent (at_AgentDID a) (c_db c) = Some g"
    and ok: "at_MemoryID a \<noteq> []" "at_AgentDID a \<noteq> []" "at_Signature a \<noteq> []"
      "aid \<notin> at_ID ` set (t_attestations (c_db c))" "int4 (min 1000 (add64 (ag_ReputationScore g) 25))"
    and v: "v = (stamped t a)\<lparr>at_ID := aid\<rparr>"
    and d': "d' = (c_db c)\<lparr>
      t_attestations := t_attestations (c_db c) @ [(stamped t a)\<lparr>at_ID := aid, at_MemoryID := mid\<rparr>],
      t_agents := set_where (\<lambda>b. ag_DID b = at_AgentDID a)
        (scored (min 1000 (add64 (ag_ReputationScore g) 25)) (Some now)) (t_agents (c_db c))\<rparr>"
    using assms(2) by (auto simp: save_spec_def Let_def split: option.splits if_splits)
  have h: "has_agent (at_AgentDID a) (c_db c)" using g by (simp add: has_agent_find)
  show ?thesis
    unfolding Save_def cap_steps stamped_def [symmetric]
    apply (simp only: ok if_False if_True length_0_conv Let_def)
    apply (rule with_tx_calm [OF assms(1)])
    using assms(1) ok mid g h
    by (simp add: attempt_def insert_attestation_def select_score_def set_reputation_def ret_def v d')
qed

text \<open>
  C24: saving an attestation refines one atomic step. Whatever calls fail, the database after
  \<open>Save\<close> is the one before, or the one in which the attestation is stored (under the server's
  identifier, with the canonical memory identifier, stamped with the time if it had none) and
  the attesting agent's score is 25 higher, at most 1000; a normal return means the step was
  done and returns the stored identifier. On a served connection the step is done whenever
  its requirements hold: the three fields are present, the memory identifier is a UUID and
  the agent is registered. The signature's validity is not among them.
\<close>

theorem Save_refines:
  "Save uuid_in t now aid a c = (r, c') \<longrightarrow>
     (c_db c' = c_db c \<or> (\<exists>v. save_spec uuid_in t now aid a (c_db c) = Some (v, c_db c'))) \<and>
     (\<forall>v. r = Inr v \<longrightarrow> save_spec uuid_in t now aid a (c_db c) = Some (v, c_db c')) \<and>
     (calm c \<and> save_spec uuid_in t now aid a (c_db c) \<noteq> None \<longrightarrow> (\<exists>v. r = Inr v))"
proof (intro impI conjI allI)
  assume run: "Save uuid_in t now aid a c = (r, c')"
  show "c_db c' = c_db c \<or> (\<exists>v. save_spec uuid_in t now aid a (c_db c) = Some (v, c_db c'))"
    by (rule atomic_either [OF Save_atomic run])
  { fix v assume "r = Inr v"
    then show "save_spec uuid_in t now aid a (c_db c) = Some (v, c_db c')"
      using atomic_success [OF Save_atomic] run by blast }
  { assume "calm c \<and> save_spec uuid_in t now aid a (c_db c) \<noteq> None"
    then obtain v d' where "calm c" "save_spec uuid_in t now aid a (c_db c) = Some (v, d')" by auto
    from Save_calm [OF this] run show "\<exists>v. r = Inr v" by simp }
qed

definition sample_attestation :: Attestation where
  "sample_attestation = \<lparr>at_ID = [], at_MemoryID = ''m1'', at_AgentDID = ''did:a'',
     at_Signature = ''not a signature'', at_CreatedAt = 7\<rparr>"

theorem Save_refines_witness:
  "\<exists>c'. Save Some 8 9 ''x1'' sample_attestation (sample_conn (sample_agents [(''did:a'', 0)])) =
        (Inr (sample_attestation\<lparr>at_ID := ''x1''\<rparr>), c') \<and>
     map ag_ReputationScore (t_agents (c_db c')) = [25]"
proof -
  let ?c = "sample_conn (sample_agents [(''did:a'', 0)])"
  let ?v = "sample_attestation\<lparr>at_ID := ''x1''\<rparr>"
  obtain r c' where run: "Save Some 8 9 ''x1'' sample_attestation ?c = (r, c')" by fastforce
  have spec: "save_spec Some 8 9 ''x1'' sample_attestation (c_db ?c) =
      Some (?v, (sample_agents [(''did:a'', 0)])\<lparr>t_attestations := [?v],
        t_agents := [scored 25 (Some 9) (sample_agent ''did:a'' 0)]\<rparr>)"
    by (simp add: save_spec_def sample_agents_def sample_agent_def empty_db_def int4_def add64_exact
        int64_def sample_attestation_def stamped_def IsZero_def zero_time_def Let_def)
  note C = Save_refines [of Some 8 9 "''x1''" sample_attestation ?c r c', THEN mp, OF run]
  from C spec obtain v where r: "r = Inr v" by auto
  with C spec run show ?thesis by auto
qed

section \<open>Reading attestations\<close>

lemma sorted_desc: "sorted_wrt (\<lambda>a b. k b \<le> (k a :: int)) (sort_key (\<lambda>a. - k a) xs)"
  using sorted_sort_key [of "\<lambda>a. - k a" xs] by (simp add: sorted_map)

lemma Get_attestation_calm:
  "calm c \<Longrightarrow> uuid_in i = Some u \<Longrightarrow> find_row at_ID u (t_attestations (c_db c)) = Some a \<Longrightarrow>
     Get_attestation uuid_in i c = (Inr a, c)"
  by (simp add: Get_attestation_def attempt_def select_attestation_def scan_row_def ret_def)

lemma ListByMemory_calm:
  "calm c \<Longrightarrow> uuid_in i = Some u \<Longrightarrow> ListByMemory uuid_in i c =
     (Inr (sort_key (\<lambda>a. - at_CreatedAt a) (filter (\<lambda>a. at_MemoryID a = u) (t_attestations (c_db c)))), c)"
  by (simp add: ListByMemory_def attempt_def select_by_memory_def ret_def)

text \<open>
  What was saved is read back. On a served connection, after a successful \<open>Save\<close> the
  attestation is what \<open>Get\<close> returns for the identifier \<open>Save\<close> returned, with the canonical
  memory identifier; \<open>ListByMemory\<close> for its memory returns one record more than before, this
  one, newest first; and for a memory with another identifier it returns what it did before.
\<close>

lemma Save_then_read:
  assumes calm: "calm c" and saved: "Save uuid_in t now aid a c = (Inr v, c')"
    and canonical: "uuid_in aid = Some aid" and mid: "uuid_in (at_MemoryID a) = Some mid"
  shows "Get_attestation uuid_in (at_ID v) c' = (Inr (v\<lparr>at_MemoryID := mid\<rparr>), c') \<and>
    (\<exists>before after. ListByMemory uuid_in (at_MemoryID a) c = (Inr before, c) \<and>
       ListByMemory uuid_in (at_MemoryID a) c' = (Inr after, c') \<and>
       mset after = add_mset (v\<lparr>at_MemoryID := mid\<rparr>) (mset before) \<and>
       sorted_wrt (\<lambda>x y. at_CreatedAt y \<le> at_CreatedAt x) after) \<and>
    (\<forall>i u. uuid_in i = Some u \<and> u \<noteq> mid \<longrightarrow>
       fst (ListByMemory uuid_in i c') = fst (ListByMemory uuid_in i c))"
proof -
  have spec: "save_spec uuid_in t now aid a (c_db c) = Some (v, c_db c')"
    by (rule atomic_success [OF Save_atomic saved])
  have c': "c' = c\<lparr>c_db := c_db c'\<rparr>"
    using Save_calm [OF calm spec] saved by simp
  then have calm': "calm c'" using calm by (metis calm_update)
  have rows: "t_attestations (c_db c') = t_attestations (c_db c) @ [v\<lparr>at_MemoryID := mid\<rparr>]"
    and id: "at_ID v = aid" and fresh: "aid \<notin> at_ID ` set (t_attestations (c_db c))"
    using spec mid
    by (auto simp: save_spec_def Let_def dest!: sym [of _ "c_db c'"] split: option.splits if_splits)
  have "find_row at_ID aid (t_attestations (c_db c')) = Some (v\<lparr>at_MemoryID := mid\<rparr>)"
    using fresh id by (simp add: rows find_row_append find_row_None_iff [THEN iffD2])
  then have "Get_attestation uuid_in (at_ID v) c' = (Inr (v\<lparr>at_MemoryID := mid\<rparr>), c')"
    using calm' canonical id by (simp add: Get_attestation_calm)
  then show ?thesis
    using calm calm' mid rows by (auto simp: ListByMemory_calm sorted_desc)
qed

lemma Save_then_read_witness:
  "\<exists>v c'. Save Some 8 9 ''x1'' sample_attestation (sample_conn (sample_agents [(''did:a'', 0)])) = (Inr v, c') \<and>
     Get_attestation Some ''x1'' c' = (Inr v, c')"
proof -
  let ?c = "sample_conn (sample_agents [(''did:a'', 0)])"
  let ?v = "sample_attestation\<lparr>at_ID := ''x1''\<rparr>"
  obtain d' where "save_spec Some 8 9 ''x1'' sample_attestation (c_db ?c) = Some (?v, d')"
    by (simp add: save_spec_def sample_agents_def sample_agent_def empty_db_def int4_def add64_exact
        int64_def sample_attestation_def stamped_def IsZero_def zero_time_def Let_def)
  from Save_calm [OF calm_sample this]
  obtain c' where run: "Save Some 8 9 ''x1'' sample_attestation ?c = (Inr ?v, c')" by simp
  have "Get_attestation Some (at_ID ?v) c' = (Inr (?v\<lparr>at_MemoryID := ''m1''\<rparr>), c')"
    using Save_then_read [OF calm_sample run, of "''m1''"] by (simp add: sample_attestation_def)
  with run show ?thesis by (auto simp: sample_attestation_def)
qed

end
