(* ===== verification/Trust_Verification.thy ===== *)
theory Trust_Verification
  imports Trust_Attestation
begin

text \<open>
  \<open>internal/trust/verification.go\<close>: peer verifications, from the choice of a verifier to the
  result that moves the scores. \<open>RANDOM()\<close> is the argument \<open>rnd\<close>, a number for each row.
\<close>

section \<open>Statements on \<open>verifications\<close>\<close>

text \<open>
  \<open>ORDER BY reputation_score DESC, RANDOM() LIMIT 1\<close>: two stable sorts, the second key first.
\<close>

definition candidates :: "string \<Rightarrow> int \<Rightarrow> db \<Rightarrow> Agent list" where
  "candidates target minReputation d =
     filter (\<lambda>a. ag_DID a \<noteq> target \<and> minReputation \<le> ag_ReputationScore a) (t_agents d)"

definition select_verifier :: "(string \<Rightarrow> int) \<Rightarrow> string \<Rightarrow> int \<Rightarrow> string option sql" where
  "select_verifier rnd target minReputation d =
     (if \<not> int4 minReputation then Inl (PgError ''22003'')
      else Inr ((case sort_key (\<lambda>a. - ag_ReputationScore a)
                        (sort_key (\<lambda>a. rnd (ag_DID a)) (candidates target minReputation d)) of
                   [] \<Rightarrow> None
                 | a # _ \<Rightarrow> Some (ag_DID a)), d))"

definition insert_verification :: "Verification \<Rightarrow> uuid sql" where
  "insert_verification v d =
     (if vf_ID v \<in> vf_ID ` set (t_verifications d) then Inl (PgError ''23505'')
      else if \<not> has_agent (vf_TargetDID v) d \<or> \<not> has_agent (vf_VerifierDID v) d
           then Inl (PgError ''23503'')
      else Inr (vf_ID v, d\<lparr>t_verifications := t_verifications d @ [v]\<rparr>))"

definition select_verification :: "(string \<Rightarrow> uuid option) \<Rightarrow> string \<Rightarrow> Verification option sql" where
  "select_verification uuid_in i d =
     (case uuid_in i of
        None \<Rightarrow> Inl (PgError ''22P02'')
      | Some u \<Rightarrow> Inr (find_row vf_ID u (t_verifications d), d))"

definition set_status :: "(string \<Rightarrow> uuid option) \<Rightarrow> string \<Rightarrow> string \<Rightarrow> unit sql" where
  "set_status uuid_in status i d =
     (case uuid_in i of
        None \<Rightarrow> Inl (PgError ''22P02'')
      | Some u \<Rightarrow> Inr ((), d\<lparr>t_verifications :=
          set_where (\<lambda>v. vf_ID v = u) (\<lambda>v. v\<lparr>vf_Status := status\<rparr>) (t_verifications d)\<rparr>))"

section \<open>Operations\<close>

definition SelectVerifier :: "(string \<Rightarrow> int) \<Rightarrow> string \<Rightarrow> int \<Rightarrow> (conn, string) proc" where
  "SelectVerifier rnd targetDID minReputation =
     attempt (attempt (db_stmt (select_verifier rnd targetDID minReputation)) id scan_row)
       (\<lambda>err. if errors_Is err ErrNoRows then Plain ''no suitable verifier found''
              else Wrap ''failed to select verifier'' err)
       ret"

definition pending_verification :: "string \<Rightarrow> string \<Rightarrow> time \<Rightarrow> uuid \<Rightarrow> Verification" where
  "pending_verification targetDID verifierDID createdAt i =
     \<lparr>vf_ID = i, vf_TargetDID = targetDID, vf_VerifierDID = verifierDID,
      vf_Status = ''pending'', vf_CreatedAt = createdAt\<rparr>"

definition CreateVerification :: "time \<Rightarrow> uuid \<Rightarrow> string \<Rightarrow> string \<Rightarrow> (conn, Verification) proc" where
  "CreateVerification createdAt vid targetDID verifierDID =
     (if targetDID = [] \<or> verifierDID = []
      then fail (Plain ''target and verifier DIDs cannot be empty'')
      else if targetDID = verifierDID
      then fail (Plain ''verifier cannot be the same as target agent'')
      else attempt (db_stmt (insert_verification (pending_verification targetDID verifierDID createdAt vid)))
             (Wrap ''failed to create verification'')
             (\<lambda>i. ret (pending_verification targetDID verifierDID createdAt i)))"

text \<open>
  The two branches that move a score. The query for the score is one whose error is not
  returned (\<open>if err == nil\<close>): the rest of the branch is skipped.
\<close>

definition award_verifier :: "time \<Rightarrow> string \<Rightarrow> (conn, unit) proc" where
  "award_verifier now verifierDID =
     attempt_or (tx_row (select_score verifierDID)) (\<lambda>score.
       let verifierScore = add64 score 50;
           verifierScore = (if verifierScore > 1000 then 1000 else verifierScore)
       in attempt (tx_stmt (set_reputation verifierScore (Some now) verifierDID))
            (Wrap ''failed to update verifier reputation'') (\<lambda>_. ret ()))
       (\<lambda>_. ret ())"

definition penalise_target :: "time \<Rightarrow> uuid \<Rightarrow> string \<Rightarrow> (conn, unit) proc" where
  "penalise_target now eid targetDID =
     attempt_or (tx_row (select_score targetDID)) (\<lambda>score.
       let targetScore = sub64 score 100;
           targetScore = (if targetScore < 0 then 0 else targetScore)
       in attempt (tx_stmt (set_reputation targetScore (Some now) targetDID))
            (Wrap ''failed to update target reputation'') (\<lambda>_.
          attempt (tx_stmt (insert_event (event_row now eid targetDID ''policy_violation'' (- 100))))
            (Wrap ''failed to log policy violation event'') (\<lambda>_. ret ())))
       (\<lambda>_. ret ())"

definition SubmitVerificationResult ::
  "(string \<Rightarrow> uuid option) \<Rightarrow> time \<Rightarrow> uuid \<Rightarrow> string \<Rightarrow> bool \<Rightarrow> (conn, unit) proc" where
  "SubmitVerificationResult uuid_in now eid i success =
     with_tx (Wrap ''failed to begin tx'')
       (attempt (attempt (tx_stmt (select_verification uuid_in i)) id scan_row)
          (\<lambda>err. if errors_Is err ErrNoRows then Plain ''verification not found''
                 else Wrap ''failed to fetch verification'' err) (\<lambda>v.
        if vf_Status v \<noteq> ''pending''
        then fail (Plain (''verification is already in status: '' @ vf_Status v))
        else
        attempt (tx_stmt (set_status uuid_in (if success then ''completed'' else ''failed'') i))
          (Wrap ''failed to update verification status'') (\<lambda>_.
        if success then award_verifier now (vf_VerifierDID v)
        else penalise_target now eid (vf_TargetDID v))))"

definition Get_verification :: "(string \<Rightarrow> uuid option) \<Rightarrow> string \<Rightarrow> (conn, Verification) proc" where
  "Get_verification uuid_in i =
     attempt (attempt (db_stmt (select_verification uuid_in i)) id scan_row)
       (\<lambda>err. if errors_Is err ErrNoRows then Plain ''verification not found''
              else Wrap ''failed to get verification'' err)
       ret"

section \<open>Choosing a verifier\<close>

lemma hd_sort_key_least:
  fixes k :: "'a \<Rightarrow> int"
  assumes "sort_key k xs = a # ys" and "x \<in> set xs"
  shows "k a \<le> k x"
proof -
  have "sorted (map k (a # ys))" using sorted_sort_key [of k xs] assms(1) by simp
  moreover have "x \<in> set (a # ys)" using assms by (metis set_sort)
  ultimately show ?thesis by auto
qed

lemma sort_key_nonempty: "xs \<noteq> [] \<Longrightarrow> \<exists>a ys. sort_key k xs = a # ys \<and> a \<in> set xs"
  by (metis length_0_conv length_sort list.exhaust list.set_intros(1) set_sort)

lemma SelectVerifier_calm:
  "calm c \<Longrightarrow> int4 m \<Longrightarrow> SelectVerifier rnd did m c =
     ((case sort_key (\<lambda>a. - ag_ReputationScore a)
              (sort_key (\<lambda>a. rnd (ag_DID a)) (candidates did m (c_db c))) of
         [] \<Rightarrow> Inl (Plain ''no suitable verifier found'')
       | a # _ \<Rightarrow> Inr (ag_DID a)), c)"
  by (simp add: SelectVerifier_def select_verifier_def attempt_def scan_row_def ret_def fail_def
      split: list.splits)

lemma stable_head:
  fixes k r :: "'a \<Rightarrow> int"
  assumes a: "a \<in> set xs" and kmin: "\<And>x. x \<in> set xs \<Longrightarrow> k a \<le> k x"
    and rmin: "\<And>x. x \<in> set xs \<Longrightarrow> x \<noteq> a \<Longrightarrow> r a < r x"
  shows "\<exists>ys. sort_key k (sort_key r xs) = a # ys"
proof -
  obtain b bs where b: "sort_key k (sort_key r xs) = b # bs"
    using sort_key_nonempty [of "sort_key r xs" k] a by (metis empty_iff empty_set set_sort)
  have bin: "b \<in> set xs" using b by (metis list.set_intros(1) set_sort)
  have kb: "k b = k a"
    using hd_sort_key_least [OF b, of a] a kmin [OF bin] by auto
  have "filter (\<lambda>x. k x = k a) (sort_key k (sort_key r xs)) = filter (\<lambda>x. k x = k a) (sort_key r xs)"
    by (rule sort_key_stable)
  then have f: "b # filter (\<lambda>x. k x = k a) bs = sort_key r (filter (\<lambda>x. k x = k a) xs)"
    using b kb by (simp add: filter_sort)
  have "r b \<le> r a" using hd_sort_key_least [OF f [symmetric], of a] a by simp
  then have "b = a" using rmin [OF bin] by force
  then show ?thesis using b by simp
qed

text \<open>
  The chosen verifier is one of the best. On a served connection, \<open>SelectVerifier\<close> fails
  with "no suitable verifier found" exactly when no other agent reaches the minimal score;
  otherwise it returns an agent other than the target, with at least the minimal score and
  no less than any other candidate's; and every such agent can be the one, for some
  outcome of \<open>RANDOM()\<close>.
\<close>

lemma SelectVerifier_best:
  assumes "calm c" and "int4 m"
  shows "(fst (SelectVerifier rnd target m c) = Inl (Plain ''no suitable verifier found'') \<longleftrightarrow>
            candidates target m (c_db c) = []) \<and>
    (candidates target m (c_db c) \<noteq> [] \<longrightarrow>
       (\<exists>a \<in> set (candidates target m (c_db c)). SelectVerifier rnd target m c = (Inr (ag_DID a), c) \<and>
          (\<forall>b \<in> set (candidates target m (c_db c)). ag_ReputationScore b \<le> ag_ReputationScore a))) \<and>
    (keys_ok (c_db c) \<longrightarrow>
       (\<forall>a \<in> set (candidates target m (c_db c)).
          (\<forall>b \<in> set (candidates target m (c_db c)). ag_ReputationScore b \<le> ag_ReputationScore a) \<longrightarrow>
          (\<exists>rnd'. SelectVerifier rnd' target m c = (Inr (ag_DID a), c))))"
    (is "?none \<and> ?best \<and> ?any")
proof (intro conjI)
  let ?C = "candidates target m (c_db c)"
  note run = SelectVerifier_calm [OF assms]
  show ?none
    using sort_key_nonempty [of "sort_key (\<lambda>a. rnd (ag_DID a)) ?C" "\<lambda>a. - ag_ReputationScore a"]
    by (cases "?C = []") (auto simp: run sort_key_nonempty split: list.splits
        dest: arg_cong [of _ _ length])
  show ?best
  proof
    assume "?C \<noteq> []"
    then obtain a ys where
      s: "sort_key (\<lambda>a. - ag_ReputationScore a) (sort_key (\<lambda>a. rnd (ag_DID a)) ?C) = a # ys"
      and a: "a \<in> set ?C"
      using sort_key_nonempty [of "sort_key (\<lambda>a. rnd (ag_DID a)) ?C" "\<lambda>a. - ag_ReputationScore a"]
      by (metis length_0_conv length_sort set_sort)
    have "\<forall>b \<in> set ?C. ag_ReputationScore b \<le> ag_ReputationScore a"
      using hd_sort_key_least [OF s] by force
    with a s run [of rnd target] show "\<exists>a \<in> set ?C. SelectVerifier rnd target m c = (Inr (ag_DID a), c) \<and>
          (\<forall>b \<in> set ?C. ag_ReputationScore b \<le> ag_ReputationScore a)"
      by auto
  qed
  show ?any
  proof (intro impI ballI)
    fix a assume keys: "keys_ok (c_db c)" and a: "a \<in> set ?C"
      and best: "\<forall>b \<in> set ?C. ag_ReputationScore b \<le> ag_ReputationScore a"
    let ?rnd = "\<lambda>did. if did = ag_DID a then 0 else 1 :: int"
    have "b = a" if "b \<in> set ?C" "ag_DID b = ag_DID a" for b
      using that a keys by (auto simp: candidates_def keys_ok_def distinct_map dest: inj_onD)
    then have "\<exists>ys. sort_key (\<lambda>a. - ag_ReputationScore a) (sort_key (\<lambda>a. ?rnd (ag_DID a)) ?C) = a # ys"
      using a best by (intro stable_head) auto
    then show "\<exists>rnd'. SelectVerifier rnd' target m c = (Inr (ag_DID a), c)"
      using run [of ?rnd target] by (intro exI [of _ ?rnd]) auto
  qed
qed

lemma SelectVerifier_best_witness:
  "SelectVerifier (\<lambda>_. 0) ''did:a'' 500
     (sample_conn (sample_agents [(''did:a'', 900), (''did:b'', 700), (''did:c'', 800), (''did:d'', 100)])) =
     (Inr ''did:c'', sample_conn (sample_agents [(''did:a'', 900), (''did:b'', 700), (''did:c'', 800), (''did:d'', 100)]))"
  using SelectVerifier_best [of "sample_conn (sample_agents [(''did:a'', 900), (''did:b'', 700), (''did:c'', 800), (''did:d'', 100)])"
      500 "\<lambda>_. 0" "''did:a''"]
  by (simp add: candidates_def sample_agents_def sample_agent_def empty_db_def int4_def)

section \<open>Submitting a result, as one step\<close>

definition submit_spec ::
  "(string \<Rightarrow> uuid option) \<Rightarrow> time \<Rightarrow> uuid \<Rightarrow> string \<Rightarrow> bool \<Rightarrow> db \<Rightarrow> (unit \<times> db) option" where
  "submit_spec uuid_in now eid i success d =
     (case uuid_in i of None \<Rightarrow> None | Some u \<Rightarrow>
      case find_row vf_ID u (t_verifications d) of None \<Rightarrow> None | Some v \<Rightarrow>
      if vf_Status v \<noteq> ''pending'' then None
      else
        let did = (if success then vf_VerifierDID v else vf_TargetDID v);
            d1 = d\<lparr>t_verifications := set_where (\<lambda>w. vf_ID w = u)
                     (\<lambda>w. w\<lparr>vf_Status := if success then ''completed'' else ''failed''\<rparr>) (t_verifications d)\<rparr>
        in (case find_agent did d of
              None \<Rightarrow> Some ((), d1)
            | Some g \<Rightarrow>
                let s = (if success then min 1000 (add64 (ag_ReputationScore g) 50)
                         else max 0 (sub64 (ag_ReputationScore g) 100));
                    d2 = d1\<lparr>t_agents := set_where (\<lambda>b. ag_DID b = did) (scored s (Some now)) (t_agents d)\<rparr>
                in if \<not> int4 s then None
                   else if success then Some ((), d2)
                   else if eid \<in> re_ID ` set (t_reputation_events d) then None
                   else Some ((), d2\<lparr>t_reputation_events := t_reputation_events d @
                          [event_row now eid did ''policy_violation'' (- 100)]\<rparr>)))"

lemma floor_steps: "(let a = x; b = (if a < 0 then 0 else a) in k b) = k (max 0 (x::int))"
  by (simp add: Let_def max_def)

lemma attempt_or_Inr_iff:
  "attempt_or m k alt s = (Inr v, s') \<longleftrightarrow>
     (\<exists>a t. m s = (Inr a, t) \<and> k a t = (Inr v, s')) \<or> (\<exists>e t. m s = (Inl e, t) \<and> alt e t = (Inr v, s'))"
  by (auto simp: attempt_or_def split: sum.splits prod.splits)

lemma select_score_frame:
  "select_score did (d\<lparr>t_verifications := x\<rparr>) = select_score did d"
  by (simp add: select_score_def)

lemma attempt_or_row_cases:
  assumes "attempt_or (tx_row q) (\<lambda>x. attempt (tx_stmt (f x)) w (k x)) (\<lambda>_. ret ()) c = (Inr u, c')"
    and "\<not> c_aborted c'"
  shows "(q (c_db c) = None \<and> c_db c' = c_db c) \<or>
     (\<exists>x n t. q (c_db c) = Some x \<and> f x (c_db c) = Inr (n, c_db t) \<and> k x n t = (Inr u, c'))"
proof -
  consider (skip) e where "tx_row q c = (Inl e, c')"
    | (go) x t n t2 where "tx_row q c = (Inr x, t)" "tx_stmt (f x) t = (Inr n, t2)" "k x n t2 = (Inr u, c')"
    using assms(1) by (auto simp: attempt_or_Inr_iff attempt_Inr_iff ret_def)
  then show ?thesis
  proof cases
    case skip
    then show ?thesis using tx_row_InlD [OF skip] assms(2) by auto
  next
    case go
    then show ?thesis by (auto dest!: success_dests)
  qed
qed

lemma award_verifier_done:
  assumes "award_verifier now did c = (Inr u, c')" and "\<not> c_aborted c'"
  shows "case find_agent did (c_db c) of
      None \<Rightarrow> c_db c' = c_db c
    | Some g \<Rightarrow> \<exists>n. set_reputation (min 1000 (add64 (ag_ReputationScore g) 50)) (Some now) did (c_db c) =
        Inr (n, c_db c')"
  using attempt_or_row_cases [OF assms(1) [unfolded award_verifier_def cap_steps] assms(2)]
  by (auto simp: select_score_def ret_def)

lemma penalise_target_done:
  assumes "penalise_target now eid did c = (Inr u, c')" and "\<not> c_aborted c'"
  shows "case find_agent did (c_db c) of
      None \<Rightarrow> c_db c' = c_db c
    | Some g \<Rightarrow> \<exists>n m d1. set_reputation (max 0 (sub64 (ag_ReputationScore g) 100)) (Some now) did (c_db c) =
        Inr (n, d1) \<and> insert_event (event_row now eid did ''policy_violation'' (- 100)) d1 = Inr (m, c_db c')"
  using attempt_or_row_cases [OF assms(1) [unfolded penalise_target_def floor_steps] assms(2)]
  by (force simp: select_score_def ret_def attempt_Inr_iff dest!: success_dests split: option.splits)

lemma SubmitVerificationResult_atomic:
  "atomic (SubmitVerificationResult uuid_in now eid i success) (submit_spec uuid_in now eid i success)"
  unfolding SubmitVerificationResult_def
proof (intro atomic_with_tx, goal_cases)
  case (1 c u c')
  let ?st = "if success then ''completed'' else ''failed''"
  let ?rest = "\<lambda>v. if success then award_verifier now (vf_VerifierDID v)
                else penalise_target now eid (vf_TargetDID v)"
  from 1(1) obtain v c1 where v: "select_verification uuid_in i (c_db c) = Inr (Some v, c_db c1)"
    and pending: "vf_Status v = ''pending''"
    and tail: "attempt (tx_stmt (set_status uuid_in ?st i)) (Wrap ''failed to update verification status'')
           (\<lambda>_. ?rest v) c1 = (Inr u, c')"
    by (auto simp: attempt_Inr_iff [of _ _ _ c] scan_row_Inr fail_def dest!: success_dests split: if_splits)
  from tail [unfolded attempt_Inr_iff]
  obtain w c2 where set: "tx_stmt (set_status uuid_in ?st i) c1 = (Inr w, c2)"
    and rest: "?rest v c2 = (Inr u, c')"
    by (elim exE conjE)
  note st = tx_stmt_InrD [OF set]
  obtain k where i: "uuid_in i = Some k"
    using v by (cases "uuid_in i") (simp_all add: select_verification_def)
  have e: "find_row vf_ID k (t_verifications (c_db c)) = Some v \<and> c_db c = c_db c1"
    using v unfolding select_verification_def i option.case sum.inject prod.inject .
  note k = i conjunct1 [OF e] and c1 = conjunct2 [OF e, symmetric]
  have c2: "c_db c2 = (c_db c)\<lparr>t_verifications := set_where (\<lambda>w. vf_ID w = k)
      (\<lambda>w. w\<lparr>vf_Status := ?st\<rparr>) (t_verifications (c_db c))\<rparr>"
    using st i c1 by (simp add: set_status_def)
  show ?case
  proof (cases success)
    case True
    with award_verifier_done [of now "vf_VerifierDID v" c2 u c'] rest 1(2) k c2 pending
    show ?thesis
      by (auto simp: submit_spec_def set_reputation_def split: option.splits if_splits)
  next
    case False
    with penalise_target_done [of now eid "vf_TargetDID v" c2 u c'] rest 1(2) k c2 pending
    show ?thesis
      by (auto simp: submit_spec_def set_reputation_def insert_event_def event_row_def
          split: option.splits if_splits)
  qed
qed

lemma SubmitVerificationResult_calm:
  assumes "calm c" and "submit_spec uuid_in now eid i success (c_db c) = Some (u, d')"
  shows "SubmitVerificationResult uuid_in now eid i success c = (Inr (), c\<lparr>c_db := d'\<rparr>)"
proof -
  obtain k v where k: "uuid_in i = Some k"
    and v: "find_row vf_ID k (t_verifications (c_db c)) = Some v" "vf_Status v = ''pending''"
    using assms(2) by (auto simp: submit_spec_def split: option.splits if_splits)
  let ?did = "if success then vf_VerifierDID v else vf_TargetDID v"
  show ?thesis
    unfolding SubmitVerificationResult_def award_verifier_def penalise_target_def cap_steps floor_steps
    using assms k v
    by (intro with_tx_calm, simp, cases success; cases "find_agent ?did (c_db c)")
       (auto simp: attempt_def attempt_or_def select_verification_def set_status_def scan_row_def
          select_score_def set_reputation_def insert_event_def event_row_def submit_spec_def ret_def
          has_agent_find find_row_set_where_same Let_def int4_def [of "- 100"] split: if_splits)
qed

section \<open>Properties\<close>

definition score_of :: "string \<Rightarrow> db \<Rightarrow> int option" where
  "score_of did d = map_option ag_ReputationScore (find_agent did d)"

lemma score_of_update:
  assumes "t_agents d' = set_where (\<lambda>b. ag_DID b = did) (scored s la) (t_agents d)"
  shows "score_of x d' = (if x = did then map_option (\<lambda>_. s) (score_of did d) else score_of x d)"
  using assms
  by (auto simp: score_of_def find_row_set_where option.map_comp comp_def
      dest: find_row_Some intro!: map_option_cong)

lemma score_of_frame [simp]:
  "score_of x (d\<lparr>t_verifications := a\<rparr>) = score_of x d"
  "score_of x (d\<lparr>t_reputation_events := b\<rparr>) = score_of x d"
  by (simp_all add: score_of_def)

text \<open>
  C8: submitting a result refines one atomic step. Whatever calls fail (including the query
  whose error the code swallows), the database afterwards is the one before or the one in which
  the status is set and the award or the penalty with its event is made, never a part of it;
  a normal return means the whole step; and on a served connection the step is taken whenever
  the verification exists and is pending.
\<close>

theorem Submit_refines:
  "SubmitVerificationResult uuid_in now eid i success c = (r, c') \<longrightarrow>
     (c_db c' = c_db c \<or> submit_spec uuid_in now eid i success (c_db c) = Some ((), c_db c')) \<and>
     (r = Inr () \<longrightarrow> submit_spec uuid_in now eid i success (c_db c) = Some ((), c_db c')) \<and>
     (calm c \<and> submit_spec uuid_in now eid i success (c_db c) \<noteq> None \<longrightarrow> r = Inr ())"
proof (intro impI conjI)
  assume run: "SubmitVerificationResult uuid_in now eid i success c = (r, c')"
  show "c_db c' = c_db c \<or> submit_spec uuid_in now eid i success (c_db c) = Some ((), c_db c')"
    using atomic_either [OF SubmitVerificationResult_atomic run] by auto
  { assume "r = Inr ()"
    then show "submit_spec uuid_in now eid i success (c_db c) = Some ((), c_db c')"
      using atomic_success [OF SubmitVerificationResult_atomic] run by blast }
  { assume "calm c \<and> submit_spec uuid_in now eid i success (c_db c) \<noteq> None"
    then obtain d' where "calm c" "submit_spec uuid_in now eid i success (c_db c) = Some ((), d')" by auto
    from SubmitVerificationResult_calm [OF this] run show "r = Inr ()" by simp }
qed

definition sample_verification :: Verification where
  "sample_verification = pending_verification ''did:t'' ''did:v'' 3 ''v1''"

definition sample_db_verification :: db where
  "sample_db_verification =
     (sample_agents [(''did:t'', 60), (''did:v'', 970)])\<lparr>t_verifications := [sample_verification]\<rparr>"

lemmas sample_verification_defs = sample_db_verification_def sample_verification_def
  pending_verification_def sample_agents_def sample_agent_def empty_db_def

theorem Submit_refines_witness:
  "\<exists>c'. SubmitVerificationResult Some 9 ''e1'' ''v1'' False (sample_conn sample_db_verification) = (Inr (), c') \<and>
     map ag_ReputationScore (t_agents (c_db c')) = [0, 970]"
proof -
  let ?c = "sample_conn sample_db_verification"
  obtain r c' where run: "SubmitVerificationResult Some 9 ''e1'' ''v1'' False ?c = (r, c')" by fastforce
  obtain d' where spec: "submit_spec Some 9 ''e1'' ''v1'' False (c_db ?c) = Some ((), d')"
    and d': "map ag_ReputationScore (t_agents d') = [0, 970]"
    by (simp add: submit_spec_def sample_verification_defs int4_def sub64_exact int64_def Let_def)
  note C = Submit_refines [of Some 9 "''e1''" "''v1''" False ?c r c', THEN mp, OF run]
  from C spec have r: "r = Inr ()" by simp
  with C spec run d' show ?thesis by auto
qed

text \<open>
  C23: a verification is decided at most once. After a successful submission, every further
  submission of a result for it, with either result, whatever the server does, fails and
  changes nothing: no score moves twice for one verification.
\<close>

theorem Submit_at_most_once:
  assumes first: "SubmitVerificationResult uuid_in now eid i success c = (Inr (), c')"
    and same: "uuid_in j = uuid_in i" and later: "c_db c1 = c_db c'"
  shows "\<exists>e c2. SubmitVerificationResult uuid_in now' eid' j success' c1 = (Inl e, c2) \<and> c_db c2 = c_db c1"
proof -
  have "submit_spec uuid_in now eid i success (c_db c) = Some ((), c_db c')"
    by (rule atomic_success [OF SubmitVerificationResult_atomic first])
  then obtain k v where k: "uuid_in i = Some k"
    and "t_verifications (c_db c') = set_where (\<lambda>w. vf_ID w = k)
      (\<lambda>w. w\<lparr>vf_Status := if success then ''completed'' else ''failed''\<rparr>) (t_verifications (c_db c))"
    and "find_row vf_ID k (t_verifications (c_db c)) = Some v"
    unfolding submit_spec_def Let_def
    by (auto dest!: sym [of _ "c_db c'"] split: option.splits if_splits)
  then have "submit_spec uuid_in now' eid' j success' (c_db c1) = None"
    by (simp add: submit_spec_def same later find_row_set_where_same)
  moreover obtain r c2 where r: "SubmitVerificationResult uuid_in now' eid' j success' c1 = (r, c2)"
    by fastforce
  ultimately have "c_db c2 = c_db c1" and "r \<noteq> Inr ()"
    using atomic_either [OF SubmitVerificationResult_atomic r]
      atomic_success [OF SubmitVerificationResult_atomic, of uuid_in now' eid' j success' c1 "()" c2]
    by auto
  with r show ?thesis by (cases r) auto
qed

theorem Submit_at_most_once_witness:
  "\<exists>c' e c2. SubmitVerificationResult Some 9 ''e1'' ''v1'' True (sample_conn sample_db_verification) = (Inr (), c') \<and>
     SubmitVerificationResult Some 10 ''e2'' ''v1'' False c' = (Inl e, c2) \<and> c_db c2 = c_db c'"
proof -
  let ?c = "sample_conn sample_db_verification"
  obtain d' where spec: "submit_spec Some 9 ''e1'' ''v1'' True (c_db ?c) = Some ((), d')"
    by (simp add: submit_spec_def sample_verification_defs int4_def add64_exact int64_def Let_def)
  then have run: "SubmitVerificationResult Some 9 ''e1'' ''v1'' True ?c = (Inr (), ?c\<lparr>c_db := d'\<rparr>)"
    by (rule SubmitVerificationResult_calm [OF calm_sample])
  with Submit_at_most_once [OF run refl refl, of 10 "''e2''" False] show ?thesis by blast
qed

text \<open>
  C6: what a result is worth. In a database that satisfies the schema and with scores in
  0..1000, a successful submission found the verification pending and sets its status to
  \<open>completed\<close> or \<open>failed\<close>; a positive result gives the verifier 50 points, at most 1000, a
  negative one costs the target 100, at least 0; no other agent's score changes, every score
  stays in 0..1000, and the event log records exactly the penalty.
\<close>

theorem Submit_effects:
  assumes run: "SubmitVerificationResult uuid_in now eid i success c = (Inr (), c')"
    and ok: "refs_ok (c_db c)" and scores: "scores_ok (c_db c)"
  shows "\<exists>u v. uuid_in i = Some u \<and> find_row vf_ID u (t_verifications (c_db c)) = Some v \<and>
    vf_Status v = ''pending'' \<and>
    find_row vf_ID u (t_verifications (c_db c')) =
      Some (v\<lparr>vf_Status := if success then ''completed'' else ''failed''\<rparr>) \<and>
    (\<forall>did. score_of did (c_db c') =
       (if success \<and> did = vf_VerifierDID v then map_option (\<lambda>s. min 1000 (s + 50)) (score_of did (c_db c))
        else if \<not> success \<and> did = vf_TargetDID v then map_option (\<lambda>s. max 0 (s - 100)) (score_of did (c_db c))
        else score_of did (c_db c))) \<and>
    scores_ok (c_db c') \<and>
    t_reputation_events (c_db c') = t_reputation_events (c_db c) @
      (if success then [] else [event_row now eid (vf_TargetDID v) ''policy_violation'' (- 100)])"
proof -
  have spec: "submit_spec uuid_in now eid i success (c_db c) = Some ((), c_db c')"
    by (rule atomic_success [OF SubmitVerificationResult_atomic run])
  then obtain u v where u: "uuid_in i = Some u"
    and v: "find_row vf_ID u (t_verifications (c_db c)) = Some v" "vf_Status v = ''pending''"
    by (auto simp: submit_spec_def split: option.splits if_splits)
  define did where "did = (if success then vf_VerifierDID v else vf_TargetDID v)"
  have "v \<in> set (t_verifications (c_db c))" using find_row_Some [OF v(1)] by simp
  then have "has_agent did (c_db c)" using ok by (auto simp: refs_ok_def did_def)
  then obtain g where g: "find_agent did (c_db c) = Some g" by (auto simp: has_agent_find)
  define s where "s = (if success then min 1000 (ag_ReputationScore g + 50)
                       else max 0 (ag_ReputationScore g - 100))"
  have range: "0 \<le> ag_ReputationScore g \<and> ag_ReputationScore g \<le> 1000"
    by (rule scores_okD [OF scores g])
  then have s: "s = (if success then min 1000 (add64 (ag_ReputationScore g) 50)
                     else max 0 (sub64 (ag_ReputationScore g) 100))" "0 \<le> s \<and> s \<le> 1000"
    by (auto simp: s_def add64_exact sub64_exact int64_def)
  let ?d = "(c_db c)\<lparr>t_verifications := set_where (\<lambda>w. vf_ID w = u)
      (\<lambda>w. w\<lparr>vf_Status := if success then ''completed'' else ''failed''\<rparr>) (t_verifications (c_db c)),
      t_agents := set_where (\<lambda>b. ag_DID b = did) (scored s (Some now)) (t_agents (c_db c)),
      t_reputation_events := t_reputation_events (c_db c) @
      (if success then [] else [event_row now eid did ''policy_violation'' (- 100)])\<rparr>"
  have d': "c_db c' = ?d"
    using spec unfolding submit_spec_def Let_def u v option.case did_def [symmetric] g s(1) [symmetric]
    by (cases success) (auto split: if_splits)
  have "score_of x ?d = (if x = did then map_option (\<lambda>_. s) (score_of x (c_db c)) else score_of x (c_db c))"
    for x by (subst score_of_update [where d = "c_db c" and did = did]) auto
  then have scs: "score_of x (c_db c') =
       (if success \<and> x = vf_VerifierDID v then map_option (\<lambda>s. min 1000 (s + 50)) (score_of x (c_db c))
        else if \<not> success \<and> x = vf_TargetDID v then map_option (\<lambda>s. max 0 (s - 100)) (score_of x (c_db c))
        else score_of x (c_db c))" for x
    using g unfolding d' by (auto simp: did_def s_def score_of_def split: if_splits)
  have "scores_ok (c_db c')"
    using scores s(2) unfolding d' by (auto simp: scores_ok_def set_set_where)
  then show ?thesis
    using u v scs unfolding d'
    by (intro exI [of _ u] exI [of _ v]) (auto simp: find_row_set_where_same did_def)
qed

theorem Submit_effects_witness:
  "\<exists>c'. SubmitVerificationResult Some 9 ''e1'' ''v1'' True (sample_conn sample_db_verification) = (Inr (), c') \<and>
     score_of ''did:v'' (c_db c') = Some 1000 \<and> score_of ''did:t'' (c_db c') = Some 60"
proof -
  let ?c = "sample_conn sample_db_verification"
  obtain d' where spec: "submit_spec Some 9 ''e1'' ''v1'' True (c_db ?c) = Some ((), d')"
    by (simp add: submit_spec_def sample_verification_defs int4_def add64_exact int64_def Let_def)
  then have run: "SubmitVerificationResult Some 9 ''e1'' ''v1'' True ?c = (Inr (), ?c\<lparr>c_db := d'\<rparr>)"
    by (rule SubmitVerificationResult_calm [OF calm_sample])
  have "refs_ok (c_db ?c)" "scores_ok (c_db ?c)"
    by (simp_all add: refs_ok_def scores_ok_def has_agent_def sample_verification_defs)
  from Submit_effects [OF run this] obtain v where
    v: "find_row vf_ID ''v1'' (t_verifications (c_db ?c)) = Some v"
    and s: "\<And>did. score_of did d' = (if did = vf_VerifierDID v
       then map_option (\<lambda>s. min 1000 (s + 50)) (score_of did (c_db ?c)) else score_of did (c_db ?c))"
    by auto
  have "vf_VerifierDID v = ''did:v''" using v by (auto simp: sample_verification_defs)
  moreover have "score_of ''did:v'' (c_db ?c) = Some 970" "score_of ''did:t'' (c_db ?c) = Some 60"
    by (simp_all add: score_of_def sample_verification_defs)
  ultimately show ?thesis using run s by simp
qed

end
