(* ===== verification/Trust_Adapter.thy ===== *)
theory Trust_Adapter
  imports Trust_Identity Trust_Verification Memory_Port
begin

text \<open>
  \<open>internal/trust/port_adapter.go\<close>: the trust layer as an implementation of the memory engine's
  \<open>TrustPort\<close>. \<open>uuid.Parse\<close> of the library that makes the identifiers is the argument \<open>parse\<close>.
\<close>

section \<open>Operations\<close>

definition VerifySignature ::
  "(bytes \<Rightarrow> bytes \<Rightarrow> bytes \<Rightarrow> bool) \<Rightarrow> string \<Rightarrow> uuid \<Rightarrow> bytes \<Rightarrow> bytes \<Rightarrow> (conn, unit) proc" where
  "VerifySignature edverify agentDID memoryID content signature =
     attempt (Get agentDID) (Wrap ''get agent'') (\<lambda>agent.
       if \<not> VerifyMemorySignature edverify (ag_PublicKey agent) memoryID content signature
       then fail (Plain ''invalid signature'')
       else ret ())"

definition GetAgentReputation :: "string \<Rightarrow> (conn, int) proc" where
  "GetAgentReputation agentDID =
     attempt (Get agentDID) id (\<lambda>agent. ret (ag_ReputationScore agent))"

definition IsAgentActive :: "string \<Rightarrow> (conn, bool) proc" where
  "IsAgentActive agentDID = attempt (Get agentDID) id (\<lambda>_. ret True)"

text \<open>A failed parse leaves the zero value, the nil UUID.\<close>

definition record_of :: "(string \<Rightarrow> uuid option) \<Rightarrow> Attestation \<Rightarrow> AttestationRecord" where
  "record_of parse att =
     \<lparr>rc_ID = (case parse (at_ID att) of None \<Rightarrow> uuid_Nil | Some u \<Rightarrow> u),
      rc_AgentDID = at_AgentDID att,
      rc_MemoryID = (case parse (at_MemoryID att) of None \<Rightarrow> uuid_Nil | Some u \<Rightarrow> u),
      rc_Claim = [], rc_Signature = at_Signature att, rc_Timestamp = at_CreatedAt att\<rparr>"

definition GetAttestationsForMemory ::
  "(string \<Rightarrow> uuid option) \<Rightarrow> (string \<Rightarrow> uuid option) \<Rightarrow> uuid \<Rightarrow> (conn, AttestationRecord list) proc" where
  "GetAttestationsForMemory parse uuid_in memoryID =
     attempt (ListByMemory uuid_in memoryID) (Wrap ''list attestations'')
       (\<lambda>attestations. ret (map (record_of parse) attestations))"

definition RecordEvent ::
  "time \<Rightarrow> uuid \<Rightarrow> string \<Rightarrow> string \<Rightarrow> int \<Rightarrow> string \<Rightarrow> (conn, unit) proc" where
  "RecordEvent now eid agentDID eventType delta description = LogEvent now eid agentDID eventType delta"

definition PortAdapter ::
  "(bytes \<Rightarrow> bytes \<Rightarrow> bytes \<Rightarrow> bool) \<Rightarrow> (string \<Rightarrow> uuid option) \<Rightarrow> (string \<Rightarrow> uuid option) \<Rightarrow>
     time \<Rightarrow> uuid \<Rightarrow> conn TrustPort" where
  "PortAdapter edverify parse uuid_in now eid =
     \<lparr>tp_VerifySignature = VerifySignature edverify,
      tp_GetAgentReputation = GetAgentReputation,
      tp_IsAgentActive = IsAgentActive,
      tp_GetAttestationsForMemory = GetAttestationsForMemory parse uuid_in,
      tp_RecordEvent = RecordEvent now eid\<rparr>"

section \<open>The adapter keeps the contract\<close>

definition registered :: "db \<Rightarrow> string \<Rightarrow> (bytes \<times> int) option" where
  "registered d did = map_option (\<lambda>a. (ag_PublicKey a, ag_ReputationScore a)) (find_agent did d)"

lemma db_row_reads: "db_row q c = (r, c') \<Longrightarrow> c_db c' = c_db c"
proof -
  assume "db_row q c = (r, c')"
  then obtain x t where x: "db_stmt (select q) c = (x, t)"
    and "x = Inl e \<Longrightarrow> c' = t" "x = Inr y \<Longrightarrow> scan_row y t = (r, c')" for e y
    by (cases "db_stmt (select q) c") (auto simp: db_row_def attempt_def split: sum.splits)
  then have "c' = t" by (cases x) (auto simp: scan_row_def ret_def fail_def split: option.splits)
  then show ?thesis using db_stmt_cases [OF x] by (auto simp: select_def)
qed

lemma Get_reads: "Get did c = (r, c') \<Longrightarrow> c_db c' = c_db c"
  by (auto simp: Get_def attempt_def ret_def dest: db_row_reads split: prod.splits sum.splits)

lemma Get_found: "Get did c = (Inr a, c') \<Longrightarrow> find_agent did (c_db c) = Some a"
  by (auto simp: Get_def attempt_Inr_iff ret_def dest: db_row_InrD)

interpretation adapter: trust_port
  "PortAdapter edverify parse uuid_in now eid" c_db registered "VerifyMemorySignature edverify"
  for edverify parse uuid_in now eid
proof (unfold_locales, goal_cases)
  case (1 did s r s')
  then show ?case
    by (auto simp: PortAdapter_def IsAgentActive_def attempt_def ret_def dest: Get_reads
        split: prod.splits sum.splits)
next
  case (2 did s s')
  then show ?case
    by (auto simp: PortAdapter_def IsAgentActive_def attempt_Inr_iff registered_def dest: Get_found)
next
  case (3 did i content sig s q s')
  then show ?case
    by (auto simp: PortAdapter_def VerifySignature_def attempt_def ret_def fail_def dest: Get_reads
        split: prod.splits sum.splits if_splits)
next
  case (4 did i content sig s u s')
  then show ?case
    by (auto simp: PortAdapter_def VerifySignature_def attempt_Inr_iff ret_def fail_def registered_def
        dest: Get_found split: if_splits)
next
  case (5 did s p s')
  then show ?case
    by (auto simp: PortAdapter_def GetAgentReputation_def attempt_def ret_def dest: Get_reads
        split: prod.splits sum.splits)
next
  case (6 did s n s')
  then show ?case
    by (auto simp: PortAdapter_def GetAgentReputation_def attempt_Inr_iff ret_def registered_def
        dest: Get_found)
qed

end
