(* ===== verification/Memory_Router.thy ===== *)
theory Memory_Router
  imports Memory_Search Memory_Valkey Trust_Adapter
begin

text \<open>
  \<open>internal/memory/router.go\<close>: working memories go to one backend, every other type to another, and
  a store on behalf of an agent is checked with the trust layer first, when there is one. The
  backends and the trust layer are interface values over a common state.
\<close>

record 's Router =
  rt_postgres :: "'s MemoryStore"
  rt_valkey :: "'s MemoryStore"
  rt_trust :: "'s TrustPort option"

definition backend :: "'s Router \<Rightarrow> MemoryType \<Rightarrow> 's MemoryStore" where
  "backend r mt = (if mt = Working then rt_valkey r else rt_postgres r)"

section \<open>Operations\<close>

definition rt_Store :: "'s Router \<Rightarrow> Memory \<Rightarrow> ('s, unit) proc" where
  "rt_Store r m =
     (case Validate (m_Type m) of
        Inl err \<Rightarrow> fail (Wrap ''invalid memory type'' err)
      | Inr _ \<Rightarrow> ms_Store (backend r (m_Type m)) m)"

definition rt_Update :: "'s Router \<Rightarrow> Memory \<Rightarrow> ('s, unit) proc" where
  "rt_Update r m = ms_Update (backend r (m_Type m)) m"

definition rt_Delete :: "'s Router \<Rightarrow> uuid \<Rightarrow> MemoryType \<Rightarrow> ('s, unit) proc" where
  "rt_Delete r i memType = ms_Delete (backend r memType) i"

definition rt_Retrieve :: "'s Router \<Rightarrow> uuid \<Rightarrow> MemoryType \<Rightarrow> ('s, Memory) proc" where
  "rt_Retrieve r i memType = ms_Retrieve (backend r memType) i"

text \<open>
  Steps 1 to 3 of \<open>StoreWithVerification\<close>. \<open>marshal\<close> is \<open>json.Marshal\<close>, whose error is ignored and
  whose result is then nil; a nil signature is \<open>None\<close>. The signature is checked for the nil
  identifier.
\<close>

definition check_trust ::
  "'s TrustPort \<Rightarrow> (bytes \<Rightarrow> error + bytes) \<Rightarrow> StoreRequest \<Rightarrow> bytes option \<Rightarrow> ('s, unit) proc" where
  "check_trust trust marshal req signature =
     attempt (tp_IsAgentActive trust (sr_AgentDID req)) (Wrap ''check agent status'') (\<lambda>active.
       if \<not> active then fail (Plain (''agent '' @ sr_AgentDID req @ '' is not active''))
       else
         attempt
           (case signature of
              None \<Rightarrow> ret ()
            | Some sig \<Rightarrow>
                let content = (case marshal (sr_Content req) of Inl _ \<Rightarrow> [] | Inr b \<Rightarrow> b)
                in tp_VerifySignature trust (sr_AgentDID req) uuid_Nil content sig)
           (Wrap ''signature verification failed'') (\<lambda>_.
         attempt (tp_GetAgentReputation trust (sr_AgentDID req)) (Wrap ''get reputation'') (\<lambda>rep.
           if rep < 100
           then fail (Plain (''agent reputation too low: '' @ decimal rep @ '' (minimum 100)''))
           else ret ())))"

text \<open>Step 4: \<open>newid\<close> is \<open>uuid.New()\<close>, \<open>t1\<close> and \<open>t2\<close> the two readings of the clock.\<close>

definition new_memory :: "uuid \<Rightarrow> time \<Rightarrow> time \<Rightarrow> StoreRequest \<Rightarrow> Memory" where
  "new_memory newid t1 t2 req =
     \<lparr>m_ID = newid, m_Type = sr_Type req, m_Namespace = sr_Namespace req, m_AgentDID = sr_AgentDID req,
      m_Content = sr_Content req, m_Embedding = [], m_Metadata = sr_Metadata req,
      m_ValidFrom = sr_ValidFrom req, m_ValidUntil = sr_ValidUntil req, m_DistilledFrom = None,
      m_CreatedAt = t1, m_UpdatedAt = t2, m_DeletedAt = None\<rparr>"

definition StoreWithVerification ::
  "'s Router \<Rightarrow> (bytes \<Rightarrow> error + bytes) \<Rightarrow> uuid \<Rightarrow> time \<Rightarrow> time \<Rightarrow> StoreRequest \<Rightarrow> bytes option \<Rightarrow>
     ('s, Memory) proc" where
  "StoreWithVerification r marshal newid t1 t2 req signature =
     attempt (case rt_trust r of None \<Rightarrow> ret () | Some trust \<Rightarrow> check_trust trust marshal req signature) id (\<lambda>_.
       let mem = new_memory newid t1 t2 req
       in attempt (rt_Store r mem) (Wrap ''store memory'') (\<lambda>_.
            case rt_trust r of
              None \<Rightarrow> ret mem
            | Some trust \<Rightarrow>
                attempt_or (tp_RecordEvent trust (sr_AgentDID req) ''memory_store'' 5 ''Successfully stored memory'')
                  (\<lambda>_. ret mem) (\<lambda>_. ret mem)))"

text \<open>Which backends a list of types asks for.\<close>

definition hasWorking :: "MemoryType list \<Rightarrow> bool" where
  "hasWorking types \<longleftrightarrow> (\<exists>t \<in> set types. t = Working) \<or> length types = 0"

definition hasPersistent :: "MemoryType list \<Rightarrow> bool" where
  "hasPersistent types \<longleftrightarrow> (\<exists>t \<in> set types. t \<noteq> Working) \<or> length types = 0"

text \<open>What \<open>Search\<close> and \<open>ListByNamespace\<close> do: append what the backends asked for return.\<close>

definition none_found :: SearchResult where
  "none_found = \<lparr>res_Results = [], res_Total = 0, res_Limit = 0, res_Offset = 0\<rparr>"

definition gather ::
  "bool \<Rightarrow> ('s, SearchResult) proc \<Rightarrow> string \<Rightarrow> bool \<Rightarrow> ('s, SearchResult) proc \<Rightarrow> string \<Rightarrow> int \<Rightarrow> int \<Rightarrow>
     ('s, SearchResult) proc" where
  "gather persistent pg pgmsg working vk vkmsg limit offset =
     attempt (if persistent then pg else ret none_found) (Wrap pgmsg) (\<lambda>res1.
     attempt (if working then vk else ret none_found) (Wrap vkmsg) (\<lambda>res2.
       ret \<lparr>res_Results = res_Results res1 @ res_Results res2,
            res_Total = add64 (res_Total res1) (res_Total res2), res_Limit = limit, res_Offset = offset\<rparr>))"

definition rt_Search :: "'s Router \<Rightarrow> SearchQuery \<Rightarrow> ('s, SearchResult) proc" where
  "rt_Search r query =
     gather (hasPersistent (sq_Types query)) (ms_Search (rt_postgres r) query) ''postgres search''
       (hasWorking (sq_Types query)) (ms_Search (rt_valkey r) query) ''valkey search''
       (sq_Limit query) (sq_Offset query)"

definition rt_ListByNamespace :: "'s Router \<Rightarrow> string \<Rightarrow> ListOpts \<Rightarrow> ('s, SearchResult) proc" where
  "rt_ListByNamespace r ns opts =
     gather (hasPersistent (lo_Types opts)) (ms_ListByNamespace (rt_postgres r) ns opts) ''postgres list''
       (hasWorking (lo_Types opts)) (ms_ListByNamespace (rt_valkey r) ns opts) ''valkey list''
       (lo_Limit opts) (lo_Offset opts)"

definition rt_RedactPII :: "'s Router \<Rightarrow> string \<Rightarrow> string list \<Rightarrow> ('s, int) proc" where
  "rt_RedactPII r ns piiTypes =
     attempt (ms_RedactPII (rt_postgres r) ns piiTypes) (Wrap ''postgres redact'') (\<lambda>pgCount.
     attempt (ms_RedactPII (rt_valkey r) ns piiTypes) (Wrap ''valkey redact'') (\<lambda>vkCount.
       ret (add64 pgCount vkCount)))"

definition rt_Expire :: "'s Router \<Rightarrow> time \<Rightarrow> ('s, int) proc" where
  "rt_Expire r before =
     attempt (ms_Expire (rt_postgres r) before) (Wrap ''postgres expire'') (\<lambda>pgCount.
     attempt (ms_Expire (rt_valkey r) before) (Wrap ''valkey expire'') (\<lambda>vkCount.
       ret (add64 pgCount vkCount)))"

definition rt_Ping :: "'s Router \<Rightarrow> ('s, unit) proc" where
  "rt_Ping r =
     attempt (ms_Ping (rt_postgres r)) (Wrap ''postgres ping'') (\<lambda>_.
     attempt (ms_Ping (rt_valkey r)) (Wrap ''valkey ping'') (\<lambda>_. ret ()))"

section \<open>What the checks guarantee\<close>

context trust_port
begin

lemma check_trust_reads:
  assumes "check_trust port marshal req signature s = (r, s')"
  shows "view s' = view s"
proof -
  have "keeps (\<lambda>t. view t = view s) (check_trust port marshal req signature)"
    unfolding check_trust_def
    by (intro keeps_rules; (cases signature)?)
       (auto simp: Let_def ret_def dest: active_reads verify_reads reputation_reads intro!: keepsI)
  from keeps_run [OF this refl assms] show ?thesis .
qed

text \<open>The same registered key and score are behind all three answers, as nothing changes in between.\<close>

lemma check_trust_ok:
  assumes "check_trust port marshal req signature s = (Inr u, s')"
  shows "\<exists>key n. agent (view s) (sr_AgentDID req) = Some (key, n) \<and> 100 \<le> n \<and>
    (\<forall>sig. signature = Some sig \<longrightarrow>
       valid key uuid_Nil (case marshal (sr_Content req) of Inl _ \<Rightarrow> [] | Inr b \<Rightarrow> b) sig)"
proof -
  let ?did = "sr_AgentDID req"
  let ?content = "case marshal (sr_Content req) of Inl _ \<Rightarrow> [] | Inr b \<Rightarrow> b"
  let ?verify = "case signature of None \<Rightarrow> ret () | Some sig \<Rightarrow> tp_VerifySignature port ?did uuid_Nil ?content sig"
  obtain a s1 where 1: "tp_IsAgentActive port ?did s = (Inr a, s1)"
    and "(if \<not> a then fail (Plain (''agent '' @ ?did @ '' is not active''))
       else attempt ?verify (Wrap ''signature verification failed'') (\<lambda>_.
         attempt (tp_GetAgentReputation port ?did) (Wrap ''get reputation'') (\<lambda>rep.
           if rep < 100 then fail (Plain (''agent reputation too low: '' @ decimal rep @ '' (minimum 100)''))
           else ret ()))) s1 = (Inr u, s')"
    using assms unfolding check_trust_def Let_def attempt_Inr_iff by blast
  then obtain v s2 n s3 where 2: "?verify s1 = (Inr v, s2)"
    and 3: "tp_GetAgentReputation port ?did s2 = (Inr n, s3)" and n: "100 \<le> n"
    by (auto simp: attempt_Inr_iff fail_def split: if_splits)
  have v1: "view s1 = view s" by (rule active_reads [OF 1])
  have v2: "view s2 = view s1" using 2 verify_reads by (cases signature) (auto simp: ret_def)
  obtain key where key: "agent (view s) ?did = Some (key, n)" using reputation_is [OF 3] v1 v2 by auto
  have "valid key uuid_Nil ?content sig" if "signature = Some sig" for sig
    using verify_ok [of ?did uuid_Nil ?content sig s1 v s2] 2 that v1 key by auto
  then show ?thesis using key n by blast
qed

end

text \<open>
  The router over two backends that keep their contracts and do not share data: each identifier
  names a memory per kind of type.
\<close>

locale router_backends =
  P: memory_store postgres okp idp livep formp IsPersistent +
  V: memory_store valkey okv idv livev formv "\<lambda>ty. ty = Working"
  for postgres valkey :: "'w MemoryStore"
    and okp okv :: "'w \<Rightarrow> bool" and idp idv :: "uuid \<Rightarrow> bool"
    and livep livev :: "'w \<Rightarrow> uuid \<Rightarrow> Memory option" and formp formv :: "Memory \<Rightarrow> Memory" +
  assumes p_store_frame: "ms_Store postgres m s = (r, s') \<Longrightarrow> livev s' = livev s \<and> okv s' = okv s"
    and v_store_frame: "ms_Store valkey m s = (r, s') \<Longrightarrow> livep s' = livep s \<and> okp s' = okp s"
    and p_delete_frame: "ms_Delete postgres i s = (r, s') \<Longrightarrow> livev s' = livev s \<and> okv s' = okv s"
    and v_delete_frame: "ms_Delete valkey i s = (r, s') \<Longrightarrow> livep s' = livep s \<and> okp s' = okp s"
begin

lemma rt_Store_cases:
  assumes "rt_Store \<lparr>rt_postgres = postgres, rt_valkey = valkey, rt_trust = trust\<rparr> m s = (Inr u, s')"
  shows "Validate (m_Type m) = Inr ()"
    and "ms_Store (if m_Type m = Working then valkey else postgres) m s = (Inr (), s')"
  using assms by (auto simp: rt_Store_def backend_def fail_def split: sum.splits if_splits)

lemma routed_store:
  assumes ok: "okp s" "okv s" and id: "idp (m_ID m)" "idv (m_ID m)"
    and run: "rt_Store \<lparr>rt_postgres = postgres, rt_valkey = valkey, rt_trust = trust\<rparr> m s = (Inr u, s1)"
    and i: "idp i" "idv i"
  shows "okp s1 \<and> okv s1 \<and>
    livep s1 i = (if i = m_ID m \<and> m_Type m \<noteq> Working then Some (formp m) else livep s i) \<and>
    livev s1 i = (if i = m_ID m \<and> m_Type m = Working then Some (formv m) else livev s i)"
proof (cases "m_Type m = Working")
  case True
  then have st: "ms_Store valkey m s = (Inr (), s1)" using rt_Store_cases(2) [OF run] by simp
  show ?thesis
    using True v_store_frame [OF st] V.store_ok [OF ok(2) id(2) st] V.store_live [OF ok(2) id(2) st i(2)] ok by simp
next
  case False
  then have st: "ms_Store postgres m s = (Inr (), s1)" using rt_Store_cases(2) [OF run] by simp
  show ?thesis
    using False p_store_frame [OF st] P.store_ok [OF ok(1) id(1) st] P.store_live [OF ok(1) id(1) st i(1)] ok by simp
qed

lemma routed_retrieve:
  assumes "okp s" "okv s" "idp i" "idv i"
    and "rt_Retrieve \<lparr>rt_postgres = postgres, rt_valkey = valkey, rt_trust = trust\<rparr> i ty s = (Inr m, s')"
  shows "(if ty = Working then livev s i else livep s i) = Some m"
  using assms P.retrieve_live [of s i m s'] V.retrieve_live [of s i m s']
  by (auto simp: rt_Retrieve_def backend_def split: if_splits)

lemma routed_store_retrieve:
  assumes ok: "okp s" "okv s" and id: "idp (m_ID m)" "idv (m_ID m)"
    and store: "rt_Store \<lparr>rt_postgres = postgres, rt_valkey = valkey, rt_trust = trust\<rparr> m s = (Inr u, s1)"
    and i: "idp i" "idv i"
    and retrieve: "rt_Retrieve \<lparr>rt_postgres = postgres, rt_valkey = valkey, rt_trust = trust\<rparr> i ty s1 = (Inr m', s2)"
  shows "if i = m_ID m \<and> (ty = Working \<longleftrightarrow> m_Type m = Working)
    then m' = (if ty = Working then formv m else formp m)
    else (if ty = Working then livev s i else livep s i) = Some m'"
  using routed_store [OF ok id store i] routed_retrieve [OF _ _ i retrieve]
  by (auto split: if_splits)

lemma routed_delete_retrieve:
  assumes ok: "okp s" "okv s" and i: "idp i" "idv i"
    and delete: "rt_Delete \<lparr>rt_postgres = postgres, rt_valkey = valkey, rt_trust = trust\<rparr> i ty s = (Inr u, s1)"
  shows "\<exists>e. fst (rt_Retrieve \<lparr>rt_postgres = postgres, rt_valkey = valkey, rt_trust = trust\<rparr> i ty s1) = Inl e"
  using assms P.delete_then_retrieve [of s i u s1] V.delete_then_retrieve [of s i u s1]
  by (auto simp: rt_Delete_def rt_Retrieve_def backend_def split: if_splits)

end

section \<open>The service's router\<close>

abbreviation service_postgres ::
  "(bytes \<Rightarrow> error + bytes) \<Rightarrow> (bytes \<Rightarrow> bytes option) \<Rightarrow> time \<Rightarrow> time \<Rightarrow>
     (SearchQuery \<Rightarrow> (conn, SearchResult) proc) option \<Rightarrow> 'k world MemoryStore" where
  "service_postgres marshal jsonb t now searcher \<equiv>
     lift_memory_store fst on_conn (PostgresStore marshal jsonb t now searcher)"

abbreviation service_valkey ::
  "nat \<Rightarrow> 'k kv_commands \<Rightarrow> (bytes \<Rightarrow> error + bytes) \<Rightarrow> (kvalue \<Rightarrow> string) \<Rightarrow> int \<Rightarrow> time \<Rightarrow> 'k world MemoryStore" where
  "service_valkey fuel client marshal jtext ttl now \<equiv>
     lift_memory_store snd on_kv (ValkeyStore fuel client marshal jtext ttl now)"

sublocale kv_client \<subseteq> routed: router_backends
  "service_postgres marshal jsonb t pnow searcher" "service_valkey fuel client marshal jtext ttl now"
  "\<lambda>w. pg_ok (fst w)" "\<lambda>w. index_ok (entry (snd w))" "\<lambda>_. True" canonical_uuid
  "\<lambda>w. pg_live (fst w)" "\<lambda>w. live_of (entry (snd w))" "pg_form marshal jsonb" "vk_form marshal"
  for marshal jsonb t pnow searcher fuel jtext ttl now
proof (intro router_backends.intro router_backends_axioms.intro, goal_cases)
  case 1
  show ?case by (rule memory_store_lift [OF pg.memory_store_axioms]) simp
next
  case 2
  show ?case by (rule memory_store_lift [OF working.memory_store_axioms]) simp
qed (auto elim!: liftE)

definition service_router ::
  "'k world MemoryStore \<Rightarrow> 'k world MemoryStore \<Rightarrow> conn TrustPort option \<Rightarrow> 'k world Router" where
  "service_router postgres valkey trust =
     \<lparr>rt_postgres = postgres, rt_valkey = valkey, rt_trust = map_option (lift_port fst on_conn) trust\<rparr>"

text \<open>Searching both backends ends, and returns at most a page of each.\<close>

context scanning_client
begin

lemma gather_Search:
  assumes router: "router = service_router (service_postgres marshal jsonb t pnow (Some (Search embedding_of cdist tsmatch rank iter)))
      (service_valkey fuel client marshal jtext ttl now) trust"
    and bound: "0 \<le> sq_Offset query" "1 \<le> sq_Limit query" "int64 (sq_Offset query + sq_Limit query)"
    and ends: "running (snd w)" "laps (snd w) 0 < fuel"
    and run: "rt_Search router query w = (r, w')"
  shows "c_db (fst w') = c_db (fst w) \<and> entry (snd w') = entry (snd w)"
    and "r \<noteq> Inl (Wrap ''postgres search'' slice_panic)"
    and "r \<noteq> Inl (Wrap ''valkey search'' (Wrap ''valkey scan'' (Driver ''context canceled'')))"
    and "r = Inr res \<Longrightarrow> int (length (res_Results res)) \<le> 2 * sq_Limit query"
proof -
  let ?pg = "\<lambda>w. if hasPersistent (sq_Types query)
    then lift fst on_conn (Search embedding_of cdist tsmatch rank iter query) w else ret none_found w"
  let ?vk = "\<lambda>w. if hasWorking (sq_Types query) then lift snd on_kv (vk_Search fuel client query) w else ret none_found w"
  obtain r1 w1 where 1: "?pg w = (r1, w1)" by (rule prod.exhaust)
  obtain r2 w2 where 2: "?vk w1 = (r2, w2)" by (rule prod.exhaust)
  have limit: "0 \<le> sq_Limit query" using bound(2) by simp
  note pg = Search_bounds [OF bound(1) limit bound(3)]
  have w1: "c_db (fst w1) = c_db (fst w) \<and> snd w1 = snd w"
    using 1 by (auto simp: ret_def split: if_splits elim!: liftE dest: pg(1))
  have r1: "r1 \<noteq> Inl slice_panic" "r1 = Inr res1 \<Longrightarrow> int (length (res_Results res1)) \<le> sq_Limit query" for res1
    using 1 limit by (auto simp: ret_def none_found_def split: if_splits elim!: liftE dest: pg(2,3))
  have ends1: "running (snd w1)" "laps (snd w1) 0 < fuel" using w1 ends by simp_all
  have w2: "fst w2 = fst w1 \<and> entry (snd w2) = entry (snd w1)"
    using 2 by (auto simp: ret_def split: if_splits elim!: liftE dest: search_page(1))
  have r2: "r2 \<noteq> Inl (Wrap ''valkey scan'' (Driver ''context canceled''))"
    using 2 vk_Search_ends(1) [OF _ ends1] by (auto simp: ret_def split: if_splits elim!: liftE)
  have len2: "int (length (res_Results res2)) \<le> sq_Limit query" if "r2 = Inr res2" for res2
    using 2 that limit bound(2) by (auto simp: ret_def none_found_def split: if_splits elim!: liftE dest!: search_page(2))
  have cases: "(r, w') = (case r1 of Inl e \<Rightarrow> (Inl (Wrap ''postgres search'' e), w1)
      | Inr a \<Rightarrow> (case r2 of Inl e \<Rightarrow> (Inl (Wrap ''valkey search'' e), w2)
        | Inr b \<Rightarrow> (Inr \<lparr>res_Results = res_Results a @ res_Results b, res_Total = add64 (res_Total a) (res_Total b),
            res_Limit = sq_Limit query, res_Offset = sq_Offset query\<rparr>, w2)))"
    using run 1 2
    by (auto simp: rt_Search_def gather_def router service_router_def PostgresStore_def ValkeyStore_def pg_Search_def
        attempt_def ret_def split: sum.splits if_splits)
  show "c_db (fst w') = c_db (fst w) \<and> entry (snd w') = entry (snd w)"
    using cases w1 w2 by (auto split: sum.splits)
  show "r \<noteq> Inl (Wrap ''postgres search'' slice_panic)" using cases r1 by (auto split: sum.splits)
  show "r \<noteq> Inl (Wrap ''valkey search'' (Wrap ''valkey scan'' (Driver ''context canceled'')))"
    using cases r2 by (auto split: sum.splits)
  assume "r = Inr res"
  then obtain a b where "r1 = Inr a" "r2 = Inr b" "res_Results res = res_Results a @ res_Results b"
    using cases by (auto split: sum.splits)
  then show "int (length (res_Results res)) \<le> 2 * sq_Limit query" using r1(2) [of a] len2 [of b] by simp
qed

lemma more_fuel:
  assumes router: "\<And>n. router n = service_router (service_postgres marshal jsonb t pnow (Some (Search embedding_of cdist tsmatch rank iter)))
      (service_valkey n client marshal jtext ttl now) trust"
    and ends: "running (snd w)" "laps (snd w) 0 < fuel" and "fuel \<le> n"
  shows "rt_Search (router n) query w = rt_Search (router fuel) query w"
proof -
  have vk: "lift snd on_kv (vk_Search n client query) v = lift snd on_kv (vk_Search fuel client query) v"
    if "snd v = snd w" for v :: "'s world"
    using vk_Search_ends(2) [of fuel query "snd v" _ _ n] ends that \<open>fuel \<le> n\<close>
    by (cases "vk_Search fuel client query (snd v)") (simp add: lift_def)
  have conn: "snd (snd (lift fst on_conn (Search embedding_of cdist tsmatch rank iter query) w)) = snd w"
    by (simp add: lift_def split: prod.splits)
  show ?thesis
    using vk conn
    by (cases "lift fst on_conn (Search embedding_of cdist tsmatch rank iter query) w")
       (auto simp: rt_Search_def gather_def router service_router_def PostgresStore_def ValkeyStore_def pg_Search_def
        attempt_def ret_def split: sum.splits)
qed

end

section \<open>Properties\<close>

context kv_client
begin

lemma service_router_contract:
  assumes router: "router = service_router (service_postgres marshal jsonb t pnow searcher)
      (service_valkey fuel client marshal jtext ttl now) trust"
    and ok: "pg_ok (fst w)" "index_ok (entry (snd w))" and id: "canonical_uuid (m_ID m)" "canonical_uuid i"
    and store: "rt_Store router m w = (Inr u, w1)"
  shows "Validate (m_Type m) = Inr () \<and>
    (\<forall>ty m' w2. rt_Retrieve router i ty w1 = (Inr m', w2) \<longrightarrow>
       (if i = m_ID m \<and> (ty = Working \<longleftrightarrow> m_Type m = Working)
        then m' = (if ty = Working then vk_form marshal m else pg_form marshal jsonb m)
        else (if ty = Working then live_of (entry (snd w)) i else pg_live (fst w) i) = Some m')) \<and>
    (\<forall>ty w2. rt_Delete router i ty w1 = (Inr (), w2) \<longrightarrow> (\<exists>e. fst (rt_Retrieve router i ty w2) = Inl e))"
proof -
  note st = store [unfolded router service_router_def]
  note after = routed.routed_store [OF ok TrueI id(1) st TrueI id(2)]
  show ?thesis
    unfolding router service_router_def
    using routed.rt_Store_cases(1) [OF st] routed.routed_store_retrieve [OF ok TrueI id(1) st TrueI id(2)]
      routed.routed_delete_retrieve [OF _ _ TrueI id(2)] after
    by blast
qed

end




definition sample_store_request :: "MemoryType \<Rightarrow> string \<Rightarrow> StoreRequest" where
  "sample_store_request ty ns = \<lparr>sr_Type = ty, sr_Namespace = ns, sr_AgentDID = ''did:a'', sr_Content = ''{}'',
     sr_Metadata = no_metadata, sr_ValidFrom = None, sr_ValidUntil = None\<rparr>"

definition sample_router :: "(bytes \<Rightarrow> bytes \<Rightarrow> bytes \<Rightarrow> bool) option \<Rightarrow> server world Router" where
  "sample_router edverify = service_router (service_postgres Inr Some 0 0 None)
     (service_valkey 1 (reference_server (\<lambda>_ _. True)) Inr (\<lambda>_. []) 60 0)
     (map_option (\<lambda>v. PortAdapter v Some Some 9 ''e1'') edverify)"

lemmas sample_router_defs = sample_router_def service_router_def sample_store_request_def new_memory_def
  StoreWithVerification_def rt_Store_def backend_def Validate_def PostgresStore_def pg_Store_def IsPersistent_def
  persistent_types_def memory_type_defs lift_def on_conn_def insert_memory_def dims_ok_def has_memory_def
  has_agent_def sample_memory_defs

text \<open>An agent with a score of 99 is refused, and nothing is stored.\<close>

definition poor_agents :: db where
  "poor_agents = (sample_db_memories [])\<lparr>t_agents := [sample_agent ''did:a'' 99]\<rparr>"


lemma check_trust_calm:
  assumes "calm c" and "find_agent (sr_AgentDID req) (c_db c) = Some a" and "100 \<le> ag_ReputationScore a"
    and "VerifyMemorySignature edverify (ag_PublicKey a) uuid_Nil
      (case marshal (sr_Content req) of Inl _ \<Rightarrow> [] | Inr b \<Rightarrow> b) sig"
  shows "check_trust (PortAdapter edverify parse uuid_in enow eid) marshal req (Some sig) c = (Inr (), c)"
  using assms
  by (simp add: check_trust_def PortAdapter_def IsAgentActive_def VerifySignature_def GetAgentReputation_def
      Get_def attempt_def ret_def Let_def)

text \<open>
  C37: a signature given to \<open>StoreWithVerification\<close> can be used again. Once a signature has passed
  the checks, it passes them for every later request with the same agent and content, under
  whatever type, namespace, metadata and validity, as long as the agent keeps its key and a
  score of at least 100: it is made for the nil identifier and binds only the content.
\<close>

theorem signature_replay:
  assumes first: "check_trust (PortAdapter edverify parse uuid_in enow eid) marshal req (Some sig) c = (Inr (), c')"
    and agent: "find_agent (sr_AgentDID req) (c_db c) = Some a" "find_agent (sr_AgentDID req) (c_db c1) = Some b"
      "ag_PublicKey b = ag_PublicKey a" "100 \<le> ag_ReputationScore b"
    and same: "sr_AgentDID req' = sr_AgentDID req" "sr_Content req' = sr_Content req" and calm: "calm c1"
  shows "check_trust (PortAdapter edverify parse uuid_in enow' eid') marshal req' (Some sig) c1 = (Inr (), c1)"
proof (rule check_trust_calm [OF calm _ agent(4)])
  show "find_agent (sr_AgentDID req') (c_db c1) = Some b" using agent same by simp
  have "VerifyMemorySignature edverify (ag_PublicKey a) uuid_Nil
      (case marshal (sr_Content req) of Inl _ \<Rightarrow> [] | Inr b \<Rightarrow> b) sig"
    using adapter.check_trust_ok [OF first] agent(1) by (auto simp: registered_def)
  then show "VerifyMemorySignature edverify (ag_PublicKey b) uuid_Nil
      (case marshal (sr_Content req') of Inl _ \<Rightarrow> [] | Inr b \<Rightarrow> b) sig"
    using agent(3) same by simp
qed

definition keyed_agent :: Agent where
  "keyed_agent = (sample_agent ''did:a'' 500)\<lparr>ag_PublicKey := replicate 32 CHR ''k''\<rparr>"

definition keyed_db :: db where
  "keyed_db = empty_db\<lparr>t_agents := [keyed_agent]\<rparr>"

theorem signature_replay_witness:
  "check_trust (PortAdapter (\<lambda>_ _ s. s = ''sig'') Some Some 9 ''e2'') Inr (sample_store_request Working ''other'') (Some ''sig'')
     (sample_conn keyed_db) = (Inr (), sample_conn keyed_db)"
proof -
  have a: "find_agent ''did:a'' (c_db (sample_conn keyed_db)) = Some keyed_agent"
    by (simp add: keyed_db_def keyed_agent_def sample_agent_def)
  have f: "sr_AgentDID (sample_store_request ty ns) = ''did:a''" "sr_Content (sample_store_request ty ns) = ''{}''"
    "100 \<le> ag_ReputationScore keyed_agent" for ty ns
    by (simp_all add: sample_store_request_def keyed_agent_def sample_agent_def)
  have "check_trust (PortAdapter (\<lambda>_ _ s. s = ''sig'') Some Some 9 ''e1'') Inr (sample_store_request Semantic ''ns'') (Some ''sig'')
     (sample_conn keyed_db) = (Inr (), sample_conn keyed_db)"
    by (rule check_trust_calm [where a = keyed_agent])
       (use a f in \<open>simp_all add: VerifyMemorySignature_def PublicKeySize_def\<close>,
        simp_all add: keyed_agent_def)
  from signature_replay [OF this, where req' = "sample_store_request Working ''other''" and a = keyed_agent and b = keyed_agent]
  show ?thesis using a f by simp
qed

text \<open>
  Without a trust layer, as the service's router is built, nothing is checked. Whatever the
  signature and whatever the agent's score, on a served connection a request with a persistent
  type, JSON content and a registered agent is stored, and no reputation changes.
\<close>

lemma store_without_trust:
  assumes calm: "calm (fst w)" and ty: "sr_Type req \<in> set persistent_types"
    and fresh: "newid \<notin> m_ID ` set (t_memories (c_db (fst w)))" and agent: "has_agent (sr_AgentDID req) (c_db (fst w))"
    and json: "marshal (sr_Content req) = Inr b" "jsonb b = Some x"
  shows "\<exists>w'. StoreWithVerification (service_router (service_postgres marshal jsonb t now searcher) valkey None)
      marshal newid t1 t2 req signature w = (Inr (new_memory newid t1 t2 req), w') \<and>
    snd w' = snd w \<and> t_agents (c_db (fst w')) = t_agents (c_db (fst w)) \<and>
    pg_live (fst w') newid = Some (visible ((new_memory newid t1 t2 req)\<lparr>m_Content := x\<rparr>))"
proof -
  let ?m = "new_memory newid t1 t2 req"
  let ?d = "(c_db (fst w))\<lparr>t_memories := t_memories (c_db (fst w)) @ [?m\<lparr>m_Content := x, m_DeletedAt := None\<rparr>]\<rparr>"
  have m: "m_Content ?m = sr_Content req" "m_Type ?m = sr_Type req" "m_ID ?m = newid"
    by (simp_all add: new_memory_def)
  have types: "sr_Type req \<noteq> Working" "Validate (sr_Type req) = Inr ()"
    using ty by (auto simp: persistent_types_set Validate_def memory_type_defs)
  have ins: "insert_memory jsonb b ?m (c_db (fst w)) = Inr ((), ?d)"
    using ty fresh agent json by (simp add: insert_memory_def new_memory_def dims_ok_def has_memory_def)
  have store: "pg_Store marshal jsonb ?m (fst w) = (Inr (), (fst w)\<lparr>c_db := ?d\<rparr>)"
    using pg_Store_calm [where marshal = marshal and m = "?m" and b = b, OF calm] ins types json m
    by (simp add: IsPersistent_def)
  have "StoreWithVerification (service_router (service_postgres marshal jsonb t now searcher) valkey None)
      marshal newid t1 t2 req signature w = (Inr ?m, on_conn ((fst w)\<lparr>c_db := ?d\<rparr>) w)"
    using store types m
    by (simp add: StoreWithVerification_def service_router_def rt_Store_def backend_def PostgresStore_def
        lift_def attempt_def Let_def ret_def)
  moreover have "pg_live ((fst w)\<lparr>c_db := ?d\<rparr>) newid = Some (visible (?m\<lparr>m_Content := x\<rparr>))"
    using insert_memory_live [OF ins, of newid] json(2) m by (simp add: pg_live_def)
  ultimately show ?thesis by (intro exI [of _ "on_conn ((fst w)\<lparr>c_db := ?d\<rparr>) w"]) simp
qed

lemma store_without_trust_witness:
  "\<exists>w'. StoreWithVerification (sample_router None) Inr ''m1'' 1 1 (sample_store_request Semantic ''ns'') (Some ''forged'')
      (calm_conn poor_agents, empty_server) = (Inr (new_memory ''m1'' 1 1 (sample_store_request Semantic ''ns'')), w')"
  using store_without_trust [of "(calm_conn poor_agents, empty_server)" "sample_store_request Semantic ''ns''" "''m1''"
      Inr "''{}''" Some "''{}''" 0 0 None "service_valkey 1 (reference_server (\<lambda>_ _. True)) Inr (\<lambda>_. []) 60 0" 1 1 "Some ''forged''"]
  by (auto simp: sample_router_def sample_store_request_def poor_agents_def persistent_types_def has_agent_def
      sample_memory_defs sample_agent_def)

end
