(* ===== verification/Gdpr_Service.thy ===== *)
theory Gdpr_Service
  imports Memory_Router Policy_Store
begin

text \<open>
  \<open>internal/gdpr/gdpr.go\<close>: forgetting an agent in one transaction, exporting its memories and
  correcting one. \<open>now\<close> is the transaction's \<open>NOW()\<close>, \<open>uuid_in\<close> the server's reading of a UUID, \<open>jsonb\<close>
  of a JSON text (as in \<open>Memory_Postgres\<close>), and \<open>scan\<close> the order in which a query without \<open>ORDER BY\<close>
  returns its rows.
\<close>

section \<open>Statements and operations\<close>

definition delete_policies :: "string \<Rightarrow> unit sql" where
  "delete_policies did d = Inr ((), d\<lparr>t_policies := filter (\<lambda>p. p_AgentDID p \<noteq> did) (t_policies d)\<rparr>)"

definition revoked :: "Agent \<Rightarrow> Agent" where
  "revoked a = a\<lparr>ag_PublicKey := [], ag_ReputationScore := 0\<rparr>"

definition revoke_agent :: "string \<Rightarrow> unit sql" where
  "revoke_agent did d = Inr ((), d\<lparr>t_agents := set_where (\<lambda>a. ag_DID a = did) revoked (t_agents d)\<rparr>)"

definition memory_of :: "string \<Rightarrow> Memory \<Rightarrow> bool" where
  "memory_of did m \<longleftrightarrow> m_AgentDID m = did \<and> live_row m"

definition Forget :: "time \<Rightarrow> string \<Rightarrow> (conn, unit) proc" where
  "Forget now agentDID =
     with_tx (Wrap ''begin tx'')
       (attempt (tx_stmt (delete_where now (memory_of agentDID))) (Wrap ''soft delete memories'') (\<lambda>_.
        attempt (tx_stmt (delete_policies agentDID)) (Wrap ''delete policies'') (\<lambda>_.
        attempt (tx_stmt (revoke_agent agentDID)) (Wrap ''revoke agent'') (\<lambda>_. ret ()))))"

text \<open>
  One exported object: its creation time is a text, here the instant it denotes. The slice of
  objects is nil, written \<open>null\<close>, when there is none. An error that ends the scan early is not
  looked at, which cuts the list at an arbitrary \<open>received\<close>.
\<close>

record export_row =
  ex_id :: string
  ex_type :: string
  ex_namespace :: string
  ex_content :: bytes
  ex_created_at :: time

definition exported :: "Memory \<Rightarrow> export_row" where
  "exported m = \<lparr>ex_id = m_ID m, ex_type = m_Type m, ex_namespace = m_Namespace m, ex_content = m_Content m,
     ex_created_at = m_CreatedAt m\<rparr>"

definition Export ::
  "(Memory list \<Rightarrow> Memory list) \<Rightarrow> nat option \<Rightarrow> string \<Rightarrow> (conn, export_row list option) proc" where
  "Export scan received agentDID =
     attempt (db_stmt (select (\<lambda>d. map exported (scan (filter (memory_of agentDID) (t_memories d))))))
       (Wrap ''query memories'') (\<lambda>rows.
       let results = (case received of None \<Rightarrow> rows | Some n \<Rightarrow> take n rows)
       in ret (if results = [] then None else Some results))"

definition Redact :: "string \<Rightarrow> string list \<Rightarrow> (conn, int) proc" where
  "Redact ns piiTypes = ret 0"

definition correct_memory ::
  "(string \<Rightarrow> uuid option) \<Rightarrow> (bytes \<Rightarrow> bytes option) \<Rightarrow> time \<Rightarrow> string \<Rightarrow> bytes \<Rightarrow> nat sql" where
  "correct_memory uuid_in jsonb now memoryID correction d =
     (case (jsonb correction, uuid_in memoryID) of
        (Some x, Some i) \<Rightarrow>
          let hit = (\<lambda>m. m_ID m = i \<and> live_row m)
          in Inr (count_where hit (t_memories d), d\<lparr>t_memories :=
               set_where hit (\<lambda>m. m\<lparr>m_Content := x, m_UpdatedAt := now\<rparr>) (t_memories d)\<rparr>)
      | _ \<Rightarrow> Inl (PgError ''22P02''))"

definition Rectify ::
  "(string \<Rightarrow> uuid option) \<Rightarrow> (bytes \<Rightarrow> bytes option) \<Rightarrow> time \<Rightarrow> string \<Rightarrow> bytes \<Rightarrow> (conn, unit) proc" where
  "Rectify uuid_in jsonb now memoryID correction =
     attempt (db_stmt (correct_memory uuid_in jsonb now memoryID correction)) (Wrap ''update memory'') (\<lambda>rows.
       if rows = 0 then fail (Plain ''memory not found or already deleted'') else ret ())"

section \<open>Forgetting as one step\<close>

definition forgotten :: "time \<Rightarrow> string \<Rightarrow> db \<Rightarrow> db" where
  "forgotten now did d = d\<lparr>
     t_memories := set_where (memory_of did) (mark_deleted now) (t_memories d),
     t_policies := filter (\<lambda>p. p_AgentDID p \<noteq> did) (t_policies d),
     t_agents := set_where (\<lambda>a. ag_DID a = did) revoked (t_agents d)\<rparr>"

lemma revoked_fields [simp]:
  "ag_DID (revoked a) = ag_DID a" "ag_PublicKey (revoked a) = []" "ag_ReputationScore (revoked a) = 0"
  by (simp_all add: revoked_def)

lemma Forget_atomic: "atomic (Forget now did) (\<lambda>d. Some ((), forgotten now did d))"
  unfolding Forget_def
proof (rule atomic_with_tx, unfold attempt_Inr_iff, goal_cases)
  case (1 c v c')
  then show ?case
    by (auto simp: ret_def delete_where_def delete_policies_def revoke_agent_def forgotten_def
        dest!: tx_stmt_InrD sym [of _ "c_db x" for x])
qed

lemma Forget_calm: "calm c \<Longrightarrow> Forget now did c = (Inr (), c\<lparr>c_db := forgotten now did (c_db c)\<rparr>)"
  unfolding Forget_def
  by (rule with_tx_calm)
     (simp_all add: attempt_def ret_def delete_where_def delete_policies_def revoke_agent_def forgotten_def)

lemma forgotten_db_ok:
  assumes "db_ok d"
  shows "db_ok (forgotten now did d)"
proof -
  let ?d = "forgotten now did d"
  have m: "map m_ID (t_memories ?d) = map m_ID (t_memories d)"
    by (simp add: forgotten_def map_key_set_where)
  have a: "map ag_DID (t_agents ?d) = map ag_DID (t_agents d)"
    by (simp add: forgotten_def map_key_set_where)
  have mem: "has_memory i ?d = has_memory i d" for i using m by (metis has_memory_cong list.set_map)
  have ag: "has_agent x ?d = has_agent x d" for x using a by (metis has_agent_cong list.set_map)
  have "keys_ok ?d"
    using assms m a by (simp add: db_ok_def keys_ok_def) (simp add: forgotten_def distinct_map_filter)
  moreover have "refs_ok ?d"
    using assms mem ag unfolding db_ok_def refs_ok_def
    by (simp add: forgotten_def set_set_where) (auto simp: mark_deleted_def)
  moreover have "columns_ok ?d"
    using assms by (auto simp: db_ok_def columns_ok_def forgotten_def set_set_where mark_deleted_def revoked_def int4_def)
  ultimately show ?thesis by (simp add: db_ok_def)
qed

lemma forgotten_effects:
  assumes ok: "distinct (map m_ID (t_memories d))"
  shows "select_live i (forgotten now did d) =
      (case select_live i d of None \<Rightarrow> None | Some m \<Rightarrow> if m_AgentDID m = did then None else Some m)"
    and "policies_of x (forgotten now did d) = (if x = did then [] else policies_of x d)"
    and "find_agent x (forgotten now did d) = (if x = did then map_option revoked (find_agent x d) else find_agent x d)"
    and "map (\<lambda>m. (m_ID m, m_Content m)) (t_memories (forgotten now did d)) = map (\<lambda>m. (m_ID m, m_Content m)) (t_memories d)"
proof -
  have d: "delete_where now (memory_of did) d = Inr (count_where (memory_of did) (t_memories d),
      d\<lparr>t_memories := set_where (memory_of did) (mark_deleted now) (t_memories d)\<rparr>)"
    by (simp add: delete_where_def)
  have "select_live i (forgotten now did d) =
      select_live i (d\<lparr>t_memories := set_where (memory_of did) (mark_deleted now) (t_memories d)\<rparr>)"
    by (simp add: select_live_def forgotten_def)
  also have "\<dots> = (case select_live i d of None \<Rightarrow> None | Some m \<Rightarrow> if m_AgentDID m = did then None else Some m)"
    using delete_where_live [OF d ok, of i]
    by (cases "find (\<lambda>m. m_ID m = i \<and> live_row m) (t_memories d)")
       (auto simp: select_live_def memory_of_def visible_def dest: find_holds)
  finally show "select_live i (forgotten now did d) =
      (case select_live i d of None \<Rightarrow> None | Some m \<Rightarrow> if m_AgentDID m = did then None else Some m)" .
  show "policies_of x (forgotten now did d) = (if x = did then [] else policies_of x d)"
    by (auto simp: forgotten_def policies_of_def filter_empty_conv intro: filter_cong)
  show "find_agent x (forgotten now did d) = (if x = did then map_option revoked (find_agent x d) else find_agent x d)"
    by (cases "find_agent x d") (auto simp: forgotten_def find_row_set_where dest: find_row_Some)
  have "map (\<lambda>m. (m_ID m, m_Content m)) (set_where p (mark_deleted now) t) = map (\<lambda>m. (m_ID m, m_Content m)) t" for p t
    by (induction t) auto
  then show "map (\<lambda>m. (m_ID m, m_Content m)) (t_memories (forgotten now did d)) = map (\<lambda>m. (m_ID m, m_Content m)) (t_memories d)"
    by (simp add: forgotten_def)
qed

text \<open>
  C9: forgetting an agent refines one atomic step. Whatever calls fail, the database after
  \<open>Forget\<close> is the one before, or the one in which the agent's readable memories are marked as
  deleted, its policies are gone, and its key is empty and its score zero; a normal return
  means the step was done, and on a served connection it is always done. The step keeps the
  schema. It makes every memory of the agent unreadable and changes no readable memory,
  policy or row of another agent; but the rows of the memories, with their content, stay.
\<close>

theorem Forget_refines:
  "Forget now did c = (r, c') \<longrightarrow>
     (c_db c' = c_db c \<or> c_db c' = forgotten now did (c_db c)) \<and>
     (r = Inr () \<longrightarrow> c_db c' = forgotten now did (c_db c)) \<and> (calm c \<longrightarrow> r = Inr ()) \<and>
     (r = Inr () \<and> db_ok (c_db c) \<longrightarrow> db_ok (c_db c') \<and>
        (\<forall>i. pg_live c' i = (case pg_live c i of None \<Rightarrow> None | Some m \<Rightarrow> if m_AgentDID m = did then None else Some m)) \<and>
        (\<forall>x. policies_of x (c_db c') = (if x = did then [] else policies_of x (c_db c))) \<and>
        (\<forall>x. find_agent x (c_db c') =
           (if x = did then map_option revoked (find_agent x (c_db c)) else find_agent x (c_db c))) \<and>
        map (\<lambda>m. (m_ID m, m_Content m)) (t_memories (c_db c')) = map (\<lambda>m. (m_ID m, m_Content m)) (t_memories (c_db c)))"
proof (intro impI conjI)
  assume run: "Forget now did c = (r, c')"
  show "c_db c' = c_db c \<or> c_db c' = forgotten now did (c_db c)"
    using atomic_either [OF Forget_atomic run] by auto
  { assume "r = Inr ()"
    then show "c_db c' = forgotten now did (c_db c)"
      using atomic_success [OF Forget_atomic, of now did c "()" c'] run by simp }
  show "calm c \<Longrightarrow> r = Inr ()" using run Forget_calm by auto
  { assume ok: "r = Inr () \<and> db_ok (c_db c)"
    then have c': "c_db c' = forgotten now did (c_db c)"
      using atomic_success [OF Forget_atomic, of now did c "()" c'] run by simp
    have ids: "distinct (map m_ID (t_memories (c_db c)))" using ok by (simp add: db_ok_def keys_ok_def)
    note effects = forgotten_effects [OF ids]
    show "db_ok (c_db c')" unfolding c' using ok by (intro forgotten_db_ok) simp
    show "\<forall>i. pg_live c' i = (case pg_live c i of None \<Rightarrow> None | Some m \<Rightarrow> if m_AgentDID m = did then None else Some m)"
      unfolding pg_live_def c' using effects(1) by blast
    show "\<forall>x. policies_of x (c_db c') = (if x = did then [] else policies_of x (c_db c))"
      unfolding c' using effects(2) by blast
    show "\<forall>x. find_agent x (c_db c') =
        (if x = did then map_option revoked (find_agent x (c_db c)) else find_agent x (c_db c))"
      unfolding c' using effects(3) by blast
    show "map (\<lambda>m. (m_ID m, m_Content m)) (t_memories (c_db c')) = map (\<lambda>m. (m_ID m, m_Content m)) (t_memories (c_db c))"
      unfolding c' by (rule effects(4)) }
qed

theorem Forget_refines_witness:
  "\<exists>c'. Forget 9 ''did:a'' (calm_conn (sample_db_memories [sample_memory ''m1'' None])) = (Inr (), c') \<and>
     pg_live c' ''m1'' = None \<and> map m_Content (t_memories (c_db c')) = [''{}'']"
proof -
  let ?c = "calm_conn (sample_db_memories [sample_memory ''m1'' None])"
  obtain r c' where run: "Forget 9 ''did:a'' ?c = (r, c')" by fastforce
  note F = Forget_refines [of 9 "''did:a''" ?c r c', THEN mp, OF run]
  have r: "r = Inr ()" using F by simp
  have "db_ok (c_db ?c)"
    by (simp add: db_ok_defs sample_memory_defs int4_def has_agent_def has_memory_def memory_type_defs)
  then have m: "map (\<lambda>m. (m_ID m, m_Content m)) (t_memories (c_db c')) = map (\<lambda>m. (m_ID m, m_Content m)) (t_memories (c_db ?c))"
    and live: "pg_live c' ''m1'' = (case pg_live ?c ''m1'' of None \<Rightarrow> None | Some m \<Rightarrow> if m_AgentDID m = ''did:a'' then None else Some m)"
    using F r by blast+
  have "map snd (map (\<lambda>m. (m_ID m, m_Content m)) (t_memories (c_db c'))) = [''{}'']"
    unfolding m by (simp add: sample_memory_defs)
  then have "map m_Content (t_memories (c_db c')) = [''{}'']" by (simp add: comp_def)
  moreover have "pg_live c' ''m1'' = None"
    unfolding live by (simp add: pg_live_def select_live_def sample_memory_defs live_row_def visible_def)
  ultimately show ?thesis using run by (intro exI [of _ c']) (simp add: r)
qed

lemma correct_memory_live:
  "find (\<lambda>m. m_ID m = j \<and> live_row m) (set_where (\<lambda>m. m_ID m = i \<and> live_row m) (\<lambda>m. m\<lparr>m_Content := x, m_UpdatedAt := now\<rparr>) t) =
    (case find (\<lambda>m. m_ID m = j \<and> live_row m) t of
       None \<Rightarrow> None | Some m \<Rightarrow> Some (if j = i then m\<lparr>m_Content := x, m_UpdatedAt := now\<rparr> else m))"
proof -
  have live: "live_row (m\<lparr>m_Content := x, m_UpdatedAt := now\<rparr>) = live_row m" for m by (simp add: live_row_def)
  show ?thesis by (induction t) (auto simp: live)
qed

lemma Rectify_calm:
  "calm c \<Longrightarrow> jsonb correction = Some x \<Longrightarrow> uuid_in memoryID = Some i \<Longrightarrow>
     Rectify uuid_in jsonb now memoryID correction c =
       (let hit = (\<lambda>m. m_ID m = i \<and> live_row m);
            d = (c_db c)\<lparr>t_memories := set_where hit (\<lambda>m. m\<lparr>m_Content := x, m_UpdatedAt := now\<rparr>) (t_memories (c_db c))\<rparr>
        in (if count_where hit (t_memories (c_db c)) = 0 then Inl (Plain ''memory not found or already deleted'') else Inr (),
            c\<lparr>c_db := d\<rparr>))"
  by (simp add: Rectify_def attempt_def correct_memory_def fail_def ret_def Let_def)

lemma live_row_count:
  "count_where (\<lambda>m. m_ID m = i \<and> live_row m) t = 0 \<longleftrightarrow> find (\<lambda>m. m_ID m = i \<and> live_row m) t = None"
  by (induction t) auto

lemma Export_calm:
  "calm c \<Longrightarrow> Export scan None did c =
     (let rows = map exported (scan (filter (memory_of did) (t_memories (c_db c))))
      in (Inr (if rows = [] then None else Some rows), c))"
  by (simp add: Export_def attempt_def select_def ret_def Let_def)

lemma forgotten_no_memory: "filter (memory_of did) (t_memories (forgotten t did d)) = []"
proof -
  have "filter p (set_where p f t) = []" if "\<And>m. \<not> p (f m)" for p f and t :: "Memory list"
    using that by (induction t) auto
  then show ?thesis by (simp add: forgotten_def memory_of_def)
qed



section \<open>A forgotten agent\<close>

primrec save_each ::
  "(string \<Rightarrow> uuid option) \<Rightarrow> time \<Rightarrow> time \<Rightarrow> Attestation \<Rightarrow> uuid list \<Rightarrow> conn \<Rightarrow> conn" where
  "save_each uuid_in t now att [] c = c"
| "save_each uuid_in t now att (aid # aids) c = save_each uuid_in t now att aids (snd (Save uuid_in t now aid att c))"

lemma Save_score:
  assumes "calm c" and "score_of (at_AgentDID att) (c_db c) = Some n" and "0 \<le> n" "n + 25 \<le> 1000"
    and "at_AgentDID att \<noteq> []" "at_MemoryID att \<noteq> []" "at_Signature att \<noteq> []" "uuid_in (at_MemoryID att) = Some u"
    and "aid \<notin> at_ID ` set (t_attestations (c_db c))"
  obtains v c' where "Save uuid_in t now aid att c = (Inr v, c')" "calm c'"
    "score_of (at_AgentDID att) (c_db c') = Some (n + 25)"
    "at_ID ` set (t_attestations (c_db c')) = insert aid (at_ID ` set (t_attestations (c_db c)))"
proof -
  obtain g where g: "find_agent (at_AgentDID att) (c_db c) = Some g" "ag_ReputationScore g = n"
    using assms(2) by (auto simp: score_of_def)
  have s: "min 1000 (add64 n 25) = n + 25" "int4 (n + 25)"
    using assms(3,4) by (simp_all add: add64_exact int64_def int4_def)
  let ?d = "(c_db c)\<lparr>
    t_attestations := t_attestations (c_db c) @ [(stamped t att)\<lparr>at_ID := aid, at_MemoryID := u\<rparr>],
    t_agents := set_where (\<lambda>b. ag_DID b = at_AgentDID att) (scored (n + 25) (Some now)) (t_agents (c_db c))\<rparr>"
  have "save_spec uuid_in t now aid att (c_db c) = Some ((stamped t att)\<lparr>at_ID := aid\<rparr>, ?d)"
    using assms g s by (simp add: save_spec_def Let_def)
  note run = Save_calm [OF assms(1) this]
  show thesis
  proof (rule that [OF run])
    show "calm (c\<lparr>c_db := ?d\<rparr>)" using assms(1) by simp
    show "score_of (at_AgentDID att) (c_db (c\<lparr>c_db := ?d\<rparr>)) = Some (n + 25)"
      using score_of_update [of ?d "at_AgentDID att" "n + 25" "Some now" "c_db c" "at_AgentDID att"] assms(2) by simp
    show "at_ID ` set (t_attestations (c_db (c\<lparr>c_db := ?d\<rparr>))) = insert aid (at_ID ` set (t_attestations (c_db c)))"
      by simp
  qed
qed

lemma save_each_score:
  assumes "at_AgentDID att \<noteq> []" "at_MemoryID att \<noteq> []" "at_Signature att \<noteq> []" "uuid_in (at_MemoryID att) = Some u"
  shows "calm c \<Longrightarrow> score_of (at_AgentDID att) (c_db c) = Some n \<Longrightarrow> 0 \<le> n \<Longrightarrow> n + 25 * int (length aids) \<le> 1000 \<Longrightarrow>
    distinct aids \<Longrightarrow> set aids \<inter> at_ID ` set (t_attestations (c_db c)) = {} \<Longrightarrow>
    calm (save_each uuid_in t now att aids c) \<and>
    score_of (at_AgentDID att) (c_db (save_each uuid_in t now att aids c)) = Some (n + 25 * int (length aids))"
proof (induction aids arbitrary: c n)
  case (Cons aid aids)
  have "n + 25 \<le> 1000" and "aid \<notin> at_ID ` set (t_attestations (c_db c))" using Cons.prems by auto
  with Save_score [of c att n uuid_in u aid t now] Cons.prems assms obtain v c' where
    save: "Save uuid_in t now aid att c = (Inr v, c')" and c': "calm c'"
      "score_of (at_AgentDID att) (c_db c') = Some (n + 25)"
      "at_ID ` set (t_attestations (c_db c')) = insert aid (at_ID ` set (t_attestations (c_db c)))"
    by metis
  have "calm (save_each uuid_in t now att aids c') \<and>
      score_of (at_AgentDID att) (c_db (save_each uuid_in t now att aids c')) = Some (n + 25 + 25 * int (length aids))"
    using Cons.prems c' by (intro Cons.IH) auto
  then show ?case by (simp add: save)
qed simp

lemma check_trust_unsigned:
  "calm c \<Longrightarrow> score_of (sr_AgentDID req) (c_db c) = Some n \<Longrightarrow> 100 \<le> n \<Longrightarrow>
     check_trust (PortAdapter edverify parse uuid_in enow eid) marshal req None c = (Inr (), c)"
  by (auto simp: score_of_def check_trust_def PortAdapter_def IsAgentActive_def GetAgentReputation_def
      Get_def attempt_def ret_def)

text \<open>
  C39: forgetting does not keep an agent out. On a served connection a registered agent that
  has been forgotten, so that its key is empty and its score zero, is refused by the checks of
  a verified store; after any four attestations in its name (whose signatures are not
  checked) it passes them again without a signature.
\<close>

theorem forgotten_agent_returns:
  assumes calm: "calm c" and agent: "find_agent did (c_db c) = Some a"
    and att: "at_AgentDID att = did" "did \<noteq> []" "at_MemoryID att \<noteq> []" "at_Signature att \<noteq> []" "uuid_in (at_MemoryID att) = Some u"
    and ids: "length aids = 4" "distinct aids" "set aids \<inter> at_ID ` set (t_attestations (c_db c)) = {}"
    and req: "sr_AgentDID req = did"
  shows "\<exists>c1. Forget now did c = (Inr (), c1) \<and> find_agent did (c_db c1) = Some (revoked a) \<and>
    (\<exists>e. fst (check_trust (PortAdapter edverify parse uuid_in enow eid) marshal req None c1) = Inl e) \<and>
    fst (check_trust (PortAdapter edverify parse uuid_in enow eid) marshal req None (save_each uuid_in t now att aids c1)) = Inr ()"
proof -
  let ?c = "c\<lparr>c_db := forgotten now did (c_db c)\<rparr>"
  let ?check = "check_trust (PortAdapter edverify parse uuid_in enow eid) marshal req None"
  have find: "find_agent did (c_db ?c) = Some (revoked a)"
    using agent find_row_Some [OF agent] by (simp add: forgotten_def find_row_set_where)
  have "\<exists>e. fst (?check ?c) = Inl e"
  proof (cases "?check ?c")
    case (Pair r c')
    have reg: "registered (c_db ?c) (sr_AgentDID req) = Some ([], 0)"
      using find req by (simp add: registered_def)
    have "r \<noteq> Inr u" for u
    proof
      assume "r = Inr u"
      then have "?check ?c = (Inr u, c')" using Pair by simp
      then obtain key n where "registered (c_db ?c) (sr_AgentDID req) = Some (key, n)" "100 \<le> n"
        using adapter.check_trust_ok by blast
      then show False using reg by simp
    qed
    then show ?thesis using Pair by (cases r) auto
  qed
  moreover have "t_attestations (forgotten now did (c_db c)) = t_attestations (c_db c)" by (simp add: forgotten_def)
  then have "calm (save_each uuid_in t now att aids ?c) \<and>
      score_of (at_AgentDID att) (c_db (save_each uuid_in t now att aids ?c)) = Some (0 + 25 * int (length aids))"
    using calm find att ids by (intro save_each_score) (simp_all add: score_of_def)
  then have "fst (?check (save_each uuid_in t now att aids ?c)) = Inr ()"
    using check_trust_unsigned [of "save_each uuid_in t now att aids ?c" req 100] att(1) ids(1) req by simp
  ultimately show ?thesis using Forget_calm [OF calm] find by (intro exI [of _ ?c]) simp
qed

theorem forgotten_agent_returns_witness:
  "\<exists>c1. Forget 9 ''did:a'' (sample_conn (sample_agents [(''did:a'', 900)])) = (Inr (), c1) \<and>
     fst (check_trust (PortAdapter (\<lambda>_ _ _. False) Some Some 9 ''e1'') Inr (sample_store_request Semantic ''ns'') None
       (save_each Some 5 9 sample_attestation [''a1'', ''a2'', ''a3'', ''a4''] c1)) = Inr ()"
proof -
  let ?c = "sample_conn (sample_agents [(''did:a'', 900)])"
  have find: "find_agent ''did:a'' (c_db ?c) = Some (sample_agent ''did:a'' 900)"
    by (simp add: sample_agents_def sample_agent_def)
  have att: "at_AgentDID sample_attestation = ''did:a''" "''did:a'' \<noteq> []" "at_MemoryID sample_attestation \<noteq> []"
    "at_Signature sample_attestation \<noteq> []" "Some (at_MemoryID sample_attestation) = Some (at_MemoryID sample_attestation)"
    by (simp_all add: sample_attestation_def)
  have ids: "length [''a1'', ''a2'', ''a3'', ''a4''] = 4" "distinct [''a1'', ''a2'', ''a3'', ''a4'']"
    "set [''a1'', ''a2'', ''a3'', ''a4''] \<inter> at_ID ` set (t_attestations (c_db ?c)) = {}"
    by (simp_all add: sample_agents_def empty_db_def)
  have req: "sr_AgentDID (sample_store_request Semantic ''ns'') = ''did:a''" by (simp add: sample_store_request_def)
  from forgotten_agent_returns [where uuid_in = Some and now = 9 and t = 5 and edverify = "\<lambda>_ _ _. False"
      and parse = Some and enow = 9 and eid = "''e1''" and marshal = Inr, OF calm_sample find att ids req]
  show ?thesis by (elim exE conjE) (intro exI conjI)
qed

end
