(* ===== verification/Policy_Parser.thy ===== *)
theory Policy_Parser
  imports Policy_Evaluator
begin

text \<open>
  \<open>internal/policy/parser.go\<close>: telling JSON from YAML, and the validation of a policy's rules.
  The decoders are arguments: \<open>json.Unmarshal\<close> and \<open>yaml.Unmarshal\<close> into the struct.
\<close>

section \<open>JSON or YAML\<close>

text \<open>
  The UTF-8 encodings of the Unicode white space that \<open>strings.TrimSpace\<close> removes.
\<close>

definition white_spaces :: "string list" where
  "white_spaces =
     map (\<lambda>n. [char_of (n :: nat)]) [9, 10, 11, 12, 13, 32] @
     map (map (\<lambda>n. char_of (n :: nat)))
       ([[0xC2, 0x85], [0xC2, 0xA0], [0xE1, 0x9A, 0x80], [0xE2, 0x80, 0xA8], [0xE2, 0x80, 0xA9],
         [0xE2, 0x80, 0xAF], [0xE2, 0x81, 0x9F], [0xE3, 0x80, 0x80]] @
        map (\<lambda>n. [0xE2, 0x80, 0x80 + n]) [0..<11])"

lemma white_spaces_nonempty: "w \<in> set white_spaces \<Longrightarrow> w \<noteq> []"
  by (auto simp: white_spaces_def)

function trim_left :: "string \<Rightarrow> string" where
  "trim_left s =
     (case find (HasPrefix s) white_spaces of
        None \<Rightarrow> s
      | Some w \<Rightarrow> trim_left (drop (length w) s))"
  by auto
termination
proof (relation "measure length")
  fix s w
  assume "find (HasPrefix s) white_spaces = Some w"
  then have "w \<in> set white_spaces" and "HasPrefix s w" by (auto simp: find_Some_iff)
  then have "0 < length w" and "length w \<le> length s"
    using white_spaces_nonempty by (auto simp: HasPrefix_iff)
  then show "(drop (length w) s, s) \<in> measure length" by (simp del: length_greater_0_conv)
qed simp

function trim_right :: "string \<Rightarrow> string" where
  "trim_right s =
     (case find (HasSuffix s) white_spaces of
        None \<Rightarrow> s
      | Some w \<Rightarrow> trim_right (take (length s - length w) s))"
  by auto
termination
proof (relation "measure length")
  fix s w
  assume "find (HasSuffix s) white_spaces = Some w"
  then have "w \<in> set white_spaces" and "HasSuffix s w" by (auto simp: find_Some_iff)
  then have "0 < length w" and "length w \<le> length s"
    using white_spaces_nonempty by (auto simp: HasSuffix_iff)
  then show "(take (length s - length w) s, s) \<in> measure length" by (simp del: length_greater_0_conv)
qed simp

declare trim_left.simps [simp del] trim_right.simps [simp del]

definition TrimSpace :: "string \<Rightarrow> string" where
  "TrimSpace s = trim_right (trim_left s)"

definition isJSON :: "bytes \<Rightarrow> bool" where
  "isJSON data = (let str = TrimSpace data in HasPrefix str ''{'' \<and> HasSuffix str ''}'')"

section \<open>Validation\<close>

text \<open>A \<open>for\<close> loop that returns the first error.\<close>

fun first_error :: "('a \<Rightarrow> error option) \<Rightarrow> 'a list \<Rightarrow> error option" where
  "first_error f [] = None"
| "first_error f (x # xs) = (case f x of Some e \<Rightarrow> Some e | None \<Rightarrow> first_error f xs)"

definition memory_rule_error :: "MemoryRule \<Rightarrow> error option" where
  "memory_rule_error rule =
     (if mr_Action rule = [] \<or> length (mr_TargetTypes rule) = 0 \<or> length (mr_Namespaces rule) = 0 \<or> mr_Effect rule = []
      then Some (Plain ''memory rule missing required fields'')
      else if mr_Effect rule \<noteq> ''allow'' \<and> mr_Effect rule \<noteq> ''deny''
      then Some (Plain (''memory rule effect must be 'allow' or 'deny'' @ [CHR 0x27]))
      else None)"

definition delegation_rule_error :: "DelegationRule \<Rightarrow> error option" where
  "delegation_rule_error rule =
     (if dr_Effect rule \<noteq> ''allow'' \<and> dr_Effect rule \<noteq> ''deny''
      then Some (Plain (''delegation rule effect must be 'allow' or 'deny'' @ [CHR 0x27])) else None)"

definition pii_rule_error :: "PIIRule \<Rightarrow> error option" where
  "pii_rule_error rule =
     (if pr_Action rule \<noteq> ''redact'' \<and> pr_Action rule \<noteq> ''block'' \<and> pr_Action rule \<noteq> ''allow''
      then Some (Plain (''pii rule action must be 'redact', 'block', or 'allow'' @ [CHR 0x27])) else None)"

definition audit_rule_error :: "AuditRule \<Rightarrow> error option" where
  "audit_rule_error rule =
     (if au_Level rule \<noteq> ''basic'' \<and> au_Level rule \<noteq> ''detailed''
      then Some (Plain (''audit rule level must be 'basic' or 'detailed'' @ [CHR 0x27])) else None)"

definition validateContent :: "Content \<Rightarrow> error + unit" where
  "validateContent c =
     (case first_error memory_rule_error (c_MemoryRules c) of Some e \<Rightarrow> Inl e | None \<Rightarrow>
      case first_error delegation_rule_error (c_DelegationRules c) of Some e \<Rightarrow> Inl e | None \<Rightarrow>
      case first_error pii_rule_error (c_PIIRules c) of Some e \<Rightarrow> Inl e | None \<Rightarrow>
      case first_error audit_rule_error (c_AuditRules c) of Some e \<Rightarrow> Inl e | None \<Rightarrow> Inr ())"

definition ParsePolicy ::
  "(bytes \<Rightarrow> error + Policy) \<Rightarrow> (bytes \<Rightarrow> error + Policy) \<Rightarrow> bytes \<Rightarrow> error + Policy" where
  "ParsePolicy json yaml data =
     (case (if isJSON data then
              (case json data of Inl e \<Rightarrow> Inl (Wrap ''failed to parse JSON policy'' e) | Inr p \<Rightarrow> Inr p)
            else
              (case yaml data of Inl e \<Rightarrow> Inl (Wrap ''failed to parse YAML policy'' e) | Inr p \<Rightarrow> Inr p)) of
        Inl e \<Rightarrow> Inl e
      | Inr p \<Rightarrow>
          (case validateContent (p_Content p) of
             Inl e \<Rightarrow> Inl (Wrap ''invalid policy content'' e)
           | Inr _ \<Rightarrow> Inr p))"

definition ParseContent ::
  "(bytes \<Rightarrow> error + Content) \<Rightarrow> (bytes \<Rightarrow> error + Content) \<Rightarrow> bytes \<Rightarrow> error + Content" where
  "ParseContent json yaml data =
     (case (if isJSON data then
              (case json data of Inl e \<Rightarrow> Inl (Wrap ''failed to parse JSON content'' e) | Inr c \<Rightarrow> Inr c)
            else
              (case yaml data of Inl e \<Rightarrow> Inl (Wrap ''failed to parse YAML content'' e) | Inr c \<Rightarrow> Inr c)) of
        Inl e \<Rightarrow> Inl e
      | Inr c \<Rightarrow>
          (case validateContent c of
             Inl e \<Rightarrow> Inl (Wrap ''invalid policy content'' e)
           | Inr _ \<Rightarrow> Inr c))"

section \<open>What validation guarantees\<close>

lemma first_error_None: "first_error f xs = None \<longleftrightarrow> (\<forall>x \<in> set xs. f x = None)"
  by (induction xs) (auto split: option.splits)

lemma first_error_Some: "first_error f xs = Some e \<Longrightarrow> \<exists>x \<in> set xs. f x = Some e"
  by (induction xs) (auto split: option.splits)

definition content_ok :: "Content \<Rightarrow> bool" where
  "content_ok c \<longleftrightarrow>
     (\<forall>r \<in> set (c_MemoryRules c). mr_Action r \<noteq> [] \<and> mr_TargetTypes r \<noteq> [] \<and> mr_Namespaces r \<noteq> [] \<and>
        mr_Effect r \<in> {''allow'', ''deny''}) \<and>
     (\<forall>r \<in> set (c_DelegationRules c). dr_Effect r \<in> {''allow'', ''deny''}) \<and>
     (\<forall>r \<in> set (c_PIIRules c). pr_Action r \<in> {''redact'', ''block'', ''allow''}) \<and>
     (\<forall>r \<in> set (c_AuditRules c). au_Level r \<in> {''basic'', ''detailed''})"

lemma validateContent_iff: "validateContent c = Inr () \<longleftrightarrow> content_ok c"
proof -
  have "validateContent c = Inr () \<longleftrightarrow>
      first_error memory_rule_error (c_MemoryRules c) = None \<and>
      first_error delegation_rule_error (c_DelegationRules c) = None \<and>
      first_error pii_rule_error (c_PIIRules c) = None \<and>
      first_error audit_rule_error (c_AuditRules c) = None"
    by (auto simp: validateContent_def split: option.splits)
  also have "\<dots> \<longleftrightarrow> content_ok c"
    unfolding first_error_None content_ok_def memory_rule_error_def delegation_rule_error_def
      pii_rule_error_def audit_rule_error_def
    by (auto split: if_splits)
  finally show ?thesis .
qed

lemma ParsePolicy_Inr:
  "ParsePolicy json yaml data = Inr p \<longleftrightarrow>
     (if isJSON data then json data else yaml data) = Inr p \<and> validateContent (p_Content p) = Inr ()"
  by (auto simp: ParsePolicy_def split: sum.splits if_splits)

text \<open>
  C33: parsing is validation, and validated rules all count. \<open>ParsePolicy\<close> returns a policy
  exactly when the decoder for the text's format returns it and every rule in it is well formed
  (all fields of a memory rule present, effects, actions and levels from their vocabularies).
  Among policies it returned no rule is silently without effect: a request that any memory rule
  matches is decided by the rules, allowed or refused by an explicit \<open>deny\<close>, and never by default.
\<close>

theorem ParsePolicy_validates:
  "(ParsePolicy json yaml data = Inr p \<longleftrightarrow>
      (if isJSON data then json data else yaml data) = Inr p \<and> content_ok (p_Content p)) \<and>
   ((\<forall>q \<in> set ps. \<exists>d. ParsePolicy json yaml d = Inr q) \<and>
    (\<exists>q \<in> set ps. \<exists>r \<in> set (c_MemoryRules (p_Content q)). matches uf req r) \<longrightarrow>
      rs_Allowed (decide uf req ps) \<or> (\<exists>q \<in> set ps. rs_Reason (decide uf req ps) = ''explicit deny by policy '' @ p_ID q))"
proof (intro conjI impI)
  show "ParsePolicy json yaml data = Inr p \<longleftrightarrow>
      (if isJSON data then json data else yaml data) = Inr p \<and> content_ok (p_Content p)"
    by (simp add: ParsePolicy_Inr validateContent_iff)
  assume ps: "(\<forall>q \<in> set ps. \<exists>d. ParsePolicy json yaml d = Inr q) \<and>
    (\<exists>q \<in> set ps. \<exists>r \<in> set (c_MemoryRules (p_Content q)). matches uf req r)"
  then obtain q r where q: "q \<in> set ps" "r \<in> set (c_MemoryRules (p_Content q))" "matches uf req r" by blast
  then have "content_ok (p_Content q)"
    using ps by (metis ParsePolicy_Inr validateContent_iff)
  then have "mr_Effect r = ''allow'' \<or> mr_Effect r = ''deny''"
    using q(2) by (auto simp: content_ok_def)
  then have "rule_says uf req ''allow'' q \<or> rule_says uf req ''deny'' q"
    using q by (auto simp: rule_says_def)
  then show "rs_Allowed (decide uf req ps) \<or>
      (\<exists>q \<in> set ps. rs_Reason (decide uf req ps) = ''explicit deny by policy '' @ p_ID q)"
    using q(1) decide_deny_reason [of ps uf req] unfolding decide_allowed by blast
qed

theorem ParsePolicy_validates_witness:
  "\<exists>p. ParsePolicy (\<lambda>_. Inr p) (\<lambda>_. Inl (Plain ''yaml'')) ''{}'' = Inr p \<and>
     p_Content p = \<lparr>c_MemoryRules = [sample_rule ''*'' ''deny''], c_DelegationRules = [], c_PIIRules = [], c_AuditRules = []\<rparr> \<and>
     (rs_Allowed (decide (\<lambda>_ _. False) sample_request [p]) \<or>
      rs_Reason (decide (\<lambda>_ _. False) sample_request [p]) = ''explicit deny by policy p1'')"
proof -
  let ?p = "sample_policy ''p1'' ''did:a'' [sample_rule ''*'' ''deny'']"
  have "isJSON ''{}''"
    by (simp add: isJSON_def TrimSpace_def Let_def trim_left.simps [of "''{}''"] trim_right.simps [of "''{}''"]
        white_spaces_def HasPrefix_def HasSuffix_def char_of_def upt_rec)
  moreover note C = ParsePolicy_validates [of "\<lambda>_. Inr ?p" "\<lambda>_. Inl (Plain ''yaml'')" "''{}''" ?p
      "[?p]" "\<lambda>_ _. False" sample_request]
  ultimately have "ParsePolicy (\<lambda>_. Inr ?p) (\<lambda>_. Inl (Plain ''yaml'')) ''{}'' = Inr ?p"
    by (simp add: content_ok_def sample_policy_defs)
  with C show ?thesis
    by (intro exI [of _ ?p])
       (auto simp: matches_def sample_policy_defs ascii_def ascii_lower_def)
qed

end
