(* ===== verification/Api_Handlers.thy ===== *)
theory Api_Handlers
  imports Api_Middleware Gdpr_Service Policy_Parser
begin

text \<open>
  The HTTP handlers of \<open>internal/api\<close> and the tool of \<open>internal/mcp/server.go\<close>. \<open>decode\<close> is what
  \<open>encoding/json\<close> decodes a body to, \<open>None\<close> being an error. The identifiers, times and orders
  that the operations take as arguments are arguments here too.
\<close>

section \<open>Documents\<close>

datatype json =
    JMemory Memory
  | JSearch SearchResult
  | JAgent Agent
  | JAgents "Agent list"
  | JKeys string string "string option"
  | JAttestation Attestation
  | JAttestations "Attestation list"
  | JVerification Verification
  | JSuccess
  | JCreated string
  | JResult Result
  | JExport "export_row list option"
  | JRectified
  | JAudit "Event list" int int int
  | JHealth bool bool

definition Reply :: "int \<Rightarrow> json \<Rightarrow> json response" where
  "Reply code j = \<lparr>rp_status = code, rp_body = Json j\<rparr>"

definition bad_request :: "string \<Rightarrow> json response" where
  "bad_request text = Error text 400"

definition answer :: "('s, 'a) proc \<Rightarrow> (error \<Rightarrow> json response) \<Rightarrow> ('a \<Rightarrow> json response) \<Rightarrow> 's \<Rightarrow> json response \<times> 's" where
  "answer m on_error on_value s =
     (case m s of (Inl e, s') \<Rightarrow> (on_error e, s') | (Inr v, s') \<Rightarrow> (on_value v, s'))"

section \<open>Memories\<close>

record StoreMemoryRequest =
  smr_AgentDID :: string
  smr_Type :: MemoryType
  smr_Namespace :: string
  smr_Content :: bytes
  smr_Metadata :: Metadata
  smr_Signature :: "bytes option"
  smr_TTL :: int

definition store_request :: "StoreMemoryRequest \<Rightarrow> StoreRequest" where
  "store_request req =
     \<lparr>sr_Type = smr_Type req, sr_Namespace = smr_Namespace req, sr_AgentDID = smr_AgentDID req,
      sr_Content = smr_Content req, sr_Metadata = smr_Metadata req, sr_ValidFrom = None, sr_ValidUntil = None\<rparr>"

definition StoreMemory ::
  "(bytes \<Rightarrow> StoreMemoryRequest option) \<Rightarrow> 's Router \<Rightarrow> (bytes \<Rightarrow> error + bytes) \<Rightarrow> uuid \<Rightarrow> time \<Rightarrow> time \<Rightarrow>
     ('s, json) handler" where
  "StoreMemory decode router marshal newid t1 t2 r s =
     (case decode (hr_Body r) of
        None \<Rightarrow> (bad_request ''invalid request body'', s)
      | Some req \<Rightarrow>
          answer (StoreWithVerification router marshal newid t1 t2 (store_request req) (smr_Signature req))
            (\<lambda>e. ErrorOf [] e 500) (\<lambda>m. Reply 201 (JMemory m)) s)"

record SearchMemoryRequest =
  shr_Query :: string
  shr_Types :: "MemoryType list"
  shr_Namespaces :: "string list"
  shr_AgentDID :: string
  shr_Limit :: int

definition search_limit :: "int \<Rightarrow> int" where
  "search_limit limit = (if limit \<le> 0 \<or> 100 < limit then 10 else limit)"

definition search_query :: "SearchMemoryRequest \<Rightarrow> SearchQuery" where
  "search_query req =
     \<lparr>sq_Query = shr_Query req, sq_Types = shr_Types req, sq_Namespaces = shr_Namespaces req,
      sq_AgentDID = shr_AgentDID req, sq_Limit = search_limit (shr_Limit req), sq_Offset = 0,
      sq_Filters = no_filters\<rparr>"

definition SearchMemory ::
  "(bytes \<Rightarrow> SearchMemoryRequest option) \<Rightarrow> 's Router \<Rightarrow> ('s, json) handler" where
  "SearchMemory decode router r s =
     (case decode (hr_Body r) of
        None \<Rightarrow> (bad_request ''invalid request body'', s)
      | Some req \<Rightarrow>
          answer (rt_Search router (search_query req)) (\<lambda>e. ErrorOf [] e 500) (\<lambda>res. Reply 200 (JSearch res)) s)"

section \<open>Policies\<close>

definition CreatePolicy :: "(bytes \<Rightarrow> Policy option) \<Rightarrow> 's PolicyStore \<Rightarrow> ('s, json) handler" where
  "CreatePolicy decode store r s =
     (case decode (hr_Body r) of
        None \<Rightarrow> (bad_request ''invalid request body'', s)
      | Some req \<Rightarrow>
          if p_AgentDID req = [] then (bad_request ''missing agent_did'', s)
          else answer (ps_SavePolicy store req) (\<lambda>e. ErrorOf ''failed to save policy: '' e 500)
                 (\<lambda>_. Reply 201 (JCreated (p_ID req))) s)"

definition EvaluatePolicy ::
  "(bytes \<Rightarrow> Request option) \<Rightarrow> (Request \<Rightarrow> 's \<Rightarrow> (Result \<times> error option) \<times> 's) \<Rightarrow> ('s, json) handler" where
  "EvaluatePolicy decode evaluate r s =
     (case decode (hr_Body r) of
        None \<Rightarrow> (bad_request ''invalid request body'', s)
      | Some req \<Rightarrow>
          if rq_AgentDID req = [] \<or> rq_Action req = [] then (bad_request ''missing agent_did or action'', s)
          else
            (case evaluate req s of
               ((result, Some e), s') \<Rightarrow> (ErrorOf ''evaluation failed: '' e 500, s')
             | ((result, None), s') \<Rightarrow> (Reply 200 (JResult result), s')))"

section \<open>Trust\<close>

text \<open>
  \<open>db\<close> says that the handle \<open>pg\<close> is not nil: taking its connection panics otherwise. \<open>net/http\<close>
  recovers from the panic and closes the connection without an answer, here with status 0.
\<close>

definition aborted :: "json response" where
  "aborted = \<lparr>rp_status = 0, rp_body = Empty\<rparr>"

text \<open>\<open>generated\<close> is what \<open>GenerateKeypair\<close> returns.\<close>

definition new_agent :: "(bytes \<Rightarrow> string) \<Rightarrow> bytes \<Rightarrow> Agent" where
  "new_agent enc pubKey =
     \<lparr>ag_DID = GenerateDID enc pubKey, ag_PublicKey = pubKey, ag_ReputationScore = 500,
      ag_CreatedAt = zero_time, ag_LastActiveAt = zero_time\<rparr>"

definition RegisterAgentHandler ::
  "bool \<Rightarrow> (bytes \<Rightarrow> string option) \<Rightarrow> (bytes \<Rightarrow> string) \<Rightarrow> (string \<Rightarrow> error + bytes) \<Rightarrow> error + bytes \<times> bytes \<Rightarrow>
     time \<Rightarrow> time \<Rightarrow> (conn, json) handler" where
  "RegisterAgentHandler db decode enc dec generated t1 t2 r c =
     (if hr_Method r \<noteq> ''POST'' then (Error ''Method not allowed'' 405, c)
      else
        (case decode (hr_Body r) of
           None \<Rightarrow> (bad_request ''Invalid request body'', c)
         | Some key \<Rightarrow>
             if \<not> db then (aborted, c) else
             (case (if key = []
                    then (case GenerateKeypair generated of
                            Inl e \<Rightarrow> Inl (ErrorOf ''Failed to generate keys: '' e 500)
                          | Inr (pub, priv) \<Rightarrow> Inr (pub, Some priv))
                    else (case dec key of
                            Inl _ \<Rightarrow> Inl (bad_request ''Invalid base58 public key'')
                          | Inr decoded \<Rightarrow>
                              if length decoded \<noteq> PublicKeySize then Inl (bad_request ''Invalid public key size'')
                              else Inr (decoded, None))) of
                Inl response \<Rightarrow> (response, c)
              | Inr (pubKey, privKey) \<Rightarrow>
                  answer (Register t1 t2 (new_agent enc pubKey))
                    (\<lambda>e. ErrorOf ''Failed to register agent: '' e 500)
                    (\<lambda>_. Reply 201 (JKeys (GenerateDID enc pubKey) (enc pubKey) (map_option enc privKey))) c)))"

definition GetAgentHandler :: "bool \<Rightarrow> (conn, json) handler" where
  "GetAgentHandler db r c =
     (let did = hr_PathValue r ''did''
      in if did = [] then (bad_request ''DID is required'', c)
         else if \<not> db then (aborted, c)
         else answer (Get did)
           (\<lambda>e. if errors_Is e ErrAgentNotFound then Error ''Agent not found'' 404 else ErrorOf [] e 500)
           (\<lambda>a. Reply 200 (JAgent a)) c)"

definition ListAgentsHandler :: "bool \<Rightarrow> (conn, json) handler" where
  "ListAgentsHandler db r c =
     (if \<not> db then (aborted, c)
      else answer List_agents (\<lambda>e. ErrorOf [] e 500) (\<lambda>as. Reply 200 (JAgents as)) c)"

text \<open>The request's attestation, without identifier and time; \<open>base64\<close> decodes its signature.\<close>

definition CreateAttestationHandler ::
  "bool \<Rightarrow> (bytes \<Rightarrow> (string \<times> string \<times> string) option) \<Rightarrow> (string \<Rightarrow> bytes option) \<Rightarrow> (string \<Rightarrow> uuid option) \<Rightarrow>
     time \<Rightarrow> time \<Rightarrow> uuid \<Rightarrow> (conn, json) handler" where
  "CreateAttestationHandler db decode base64 uuid_in t now aid r c =
     (case decode (hr_Body r) of
        None \<Rightarrow> (bad_request ''Invalid request body'', c)
      | Some (memoryID, agentDID, signature) \<Rightarrow>
          (case base64 signature of
             None \<Rightarrow> (bad_request ''Invalid base64 signature'', c)
           | Some sigBytes \<Rightarrow>
               if \<not> db then (aborted, c)
               else answer (Save uuid_in t now aid \<lparr>at_ID = [], at_MemoryID = memoryID, at_AgentDID = agentDID,
                   at_Signature = sigBytes, at_CreatedAt = zero_time\<rparr>)
                 (\<lambda>e. ErrorOf [] e 500) (\<lambda>att. Reply 201 (JAttestation att)) c))"

definition ListAttestationsHandler :: "bool \<Rightarrow> (string \<Rightarrow> uuid option) \<Rightarrow> (conn, json) handler" where
  "ListAttestationsHandler db uuid_in r c =
     (let memoryID = hr_PathValue r ''memory_id''
      in if memoryID = [] then (bad_request ''Memory ID is required'', c)
         else if \<not> db then (aborted, c)
         else answer (ListByMemory uuid_in memoryID) (\<lambda>e. ErrorOf [] e 500) (\<lambda>as. Reply 200 (JAttestations as)) c)"

definition CreateVerificationHandler ::
  "bool \<Rightarrow> (bytes \<Rightarrow> string option) \<Rightarrow> (string \<Rightarrow> int) \<Rightarrow> time \<Rightarrow> uuid \<Rightarrow> (conn, json) handler" where
  "CreateVerificationHandler db decode rnd now vid r c =
     (case decode (hr_Body r) of
        None \<Rightarrow> (bad_request ''Invalid request body'', c)
      | Some target \<Rightarrow>
          if \<not> db then (aborted, c)
          else
          (case SelectVerifier rnd target 500 c of
             (Inl e, c1) \<Rightarrow> (ErrorOf ''No suitable verifier found: '' e 424, c1)
           | (Inr verifier, c1) \<Rightarrow>
               answer (CreateVerification now vid target verifier) (\<lambda>e. ErrorOf [] e 500)
                 (\<lambda>v. Reply 201 (JVerification v)) c1))"

definition SubmitVerificationResultHandler ::
  "bool \<Rightarrow> (bytes \<Rightarrow> bool option) \<Rightarrow> (string \<Rightarrow> uuid option) \<Rightarrow> time \<Rightarrow> uuid \<Rightarrow> (conn, json) handler" where
  "SubmitVerificationResultHandler db decode uuid_in now eid r c =
     (let i = hr_PathValue r ''id''
      in if i = [] then (bad_request ''Verification ID is required'', c)
         else
           (case decode (hr_Body r) of
              None \<Rightarrow> (bad_request ''Invalid request body'', c)
            | Some success \<Rightarrow>
                if \<not> db then (aborted, c)
                else answer (SubmitVerificationResult uuid_in now eid i success) (\<lambda>e. ErrorOf [] e 500)
                  (\<lambda>_. Reply 200 JSuccess) c))"

section \<open>Audit and GDPR\<close>

text \<open>\<open>strconv.ParseBool\<close> and \<open>strconv.Atoi\<close>.\<close>

definition ParseBool :: "string \<Rightarrow> bool option" where
  "ParseBool s =
     (if s \<in> {''1'', ''t'', ''T'', ''true'', ''TRUE'', ''True''} then Some True
      else if s \<in> {''0'', ''f'', ''F'', ''false'', ''FALSE'', ''False''} then Some False
      else None)"

definition digit :: "char \<Rightarrow> int" where
  "digit c = of_char c - 48"

definition decimal_value :: "string \<Rightarrow> int option" where
  "decimal_value s =
     (if s = [] \<or> \<not> list_all (\<lambda>c. 0 \<le> digit c \<and> digit c \<le> 9) s then None
      else Some (foldl (\<lambda>a c. 10 * a + digit c) 0 s))"

definition Atoi :: "string \<Rightarrow> int option" where
  "Atoi s =
     (let (negative, digits) = (case s of
            [] \<Rightarrow> (False, s)
          | c # t \<Rightarrow> if c = CHR ''-'' then (True, t) else if c = CHR ''+'' then (False, t) else (False, s))
      in case decimal_value digits of
           None \<Rightarrow> None
         | Some n \<Rightarrow> let i = (if negative then - n else n) in if int64 i then Some i else None)"

text \<open>\<open>parse_time\<close> is \<open>time.Parse\<close> with the layout of RFC 3339.\<close>

definition audit_filter :: "(string \<Rightarrow> time option) \<Rightarrow> (string \<Rightarrow> string) \<Rightarrow> AuditFilter" where
  "audit_filter parse_time q =
     \<lparr>af_AgentDID = (if q ''agent_did'' \<noteq> [] then Some (q ''agent_did'') else None),
      af_Action = (if q ''action'' \<noteq> [] then Some (q ''action'') else None),
      af_Allowed = (if q ''allowed'' \<noteq> [] then ParseBool (q ''allowed'') else None),
      af_From = (if q ''from'' \<noteq> [] then parse_time (q ''from'') else None),
      af_To = (if q ''to'' \<noteq> [] then parse_time (q ''to'') else None),
      af_Limit = (case Atoi (q ''limit'') of None \<Rightarrow> 100 | Some l \<Rightarrow> if 0 < l then l else 100),
      af_Offset = (case Atoi (q ''offset'') of None \<Rightarrow> 0 | Some off \<Rightarrow> if 0 \<le> off then off else 0)\<rparr>"

definition QueryAudit :: "(string \<Rightarrow> time option) \<Rightarrow> (conn, json) handler" where
  "QueryAudit parse_time r c =
     (let f = audit_filter parse_time (hr_Query r)
      in answer (Query f) (\<lambda>e. Error ''failed to query audit logs'' 500)
           (\<lambda>(events, n). Reply 200 (JAudit events n (af_Limit f) (af_Offset f))) c)"

definition RightToForget :: "(bytes \<Rightarrow> (string \<times> bool) option) \<Rightarrow> time \<Rightarrow> (conn, json) handler" where
  "RightToForget decode now r c =
     (case decode (hr_Body r) of
        None \<Rightarrow> (bad_request ''invalid request body'', c)
      | Some (agentDID, confirm) \<Rightarrow>
          if agentDID = [] \<or> \<not> confirm then (bad_request ''missing agent_did or confirmation'', c)
          else answer (Forget now agentDID) (\<lambda>e. ErrorOf ''forget operation failed: '' e 500)
                 (\<lambda>_. \<lparr>rp_status = 204, rp_body = Empty\<rparr>) c)"

definition ExportData ::
  "(bytes \<Rightarrow> string option) \<Rightarrow> (Memory list \<Rightarrow> Memory list) \<Rightarrow> nat option \<Rightarrow> (conn, json) handler" where
  "ExportData decode scan received r c =
     (case decode (hr_Body r) of
        None \<Rightarrow> (bad_request ''invalid request body'', c)
      | Some agentDID \<Rightarrow>
          if agentDID = [] then (bad_request ''missing agent_did'', c)
          else answer (Export scan received agentDID) (\<lambda>e. ErrorOf ''export failed: '' e 500)
                 (\<lambda>x. Reply 200 (JExport x)) c)"

definition RectifyData ::
  "(bytes \<Rightarrow> (string \<times> bytes) option) \<Rightarrow> (string \<Rightarrow> uuid option) \<Rightarrow> (bytes \<Rightarrow> bytes option) \<Rightarrow> time \<Rightarrow>
     (conn, json) handler" where
  "RectifyData decode uuid_in jsonb now r c =
     (case decode (hr_Body r) of
        None \<Rightarrow> (bad_request ''invalid request body'', c)
      | Some (memoryID, correction) \<Rightarrow>
          if memoryID = [] \<or> length correction = 0 then (bad_request ''missing memory_id or correction'', c)
          else answer (Rectify uuid_in jsonb now memoryID correction) (\<lambda>e. ErrorOf ''rectify failed: '' e 500)
                 (\<lambda>_. Reply 200 JRectified) c)"

section \<open>Health\<close>

text \<open>\<open>None\<close> is a store that was not connected at the start.\<close>

definition HealthHandler ::
  "('s, unit) proc option \<Rightarrow> ('s, unit) proc option \<Rightarrow> ('s, json) handler" where
  "HealthHandler pg_ping vk_ping r s =
     (let (up1, s1) = (case pg_ping of None \<Rightarrow> (False, s) | Some p \<Rightarrow> (case p s of (Inl _, s') \<Rightarrow> (False, s') | (Inr _, s') \<Rightarrow> (True, s')));
          (up2, s2) = (case vk_ping of None \<Rightarrow> (False, s1) | Some p \<Rightarrow> (case p s1 of (Inl _, s') \<Rightarrow> (False, s') | (Inr _, s') \<Rightarrow> (True, s')))
      in (Reply 200 (JHealth up1 up2), s2))"

section \<open>The MCP tool\<close>

text \<open>\<open>arg\<close> is the argument \<open>id\<close>, if it is a string; \<open>parse\<close> is \<open>uuid.Parse\<close>.\<close>

datatype tool_result = ToolError string | ToolFailure string error | ToolText string

definition handleMemoryRetrieve ::
  "(string \<Rightarrow> uuid option) \<Rightarrow> 's MemoryStore \<Rightarrow> string option \<Rightarrow> 's \<Rightarrow> tool_result \<times> 's" where
  "handleMemoryRetrieve parse memStore arg s =
     (case arg of
        None \<Rightarrow> (ToolError ''missing or invalid id argument'', s)
      | Some idStr \<Rightarrow>
          (case parse idStr of
             None \<Rightarrow> (ToolError ''invalid uuid format'', s)
           | Some i \<Rightarrow>
               (case ms_Retrieve memStore i s of
                  (Inl e, s') \<Rightarrow> (ToolFailure ''memory not found: '' e, s')
                | (Inr m, s') \<Rightarrow>
                    (ToolText (''Retrieved memory successfully (namespace: '' @ m_Namespace m @ '')''), s'))))"

section \<open>Properties\<close>

lemma search_limit_range: "1 \<le> search_limit l \<and> search_limit l \<le> 100"
  by (simp add: search_limit_def)

text \<open>
  C21: a search over HTTP always comes to an answer. Over a Valkey client whose scans advance, and
  with fuel for more replies than the scan still needs, the handler answers 200, 400 or 500, and
  more fuel changes nothing; the loop over the cursor is never what ends it, and the slice of
  the page never panics, whatever limit the body asks for. It answers 200 with at most 2 * 100
  memories (a page of each backend), and no stored data change.
\<close>

theorem SearchMemory_answers:
  assumes scan: "scanning_client client entry running laps"
    and router: "\<And>n. router n = service_router (service_postgres marshal jsonb t pnow (Some (Search embedding_of cdist tsmatch rank iter)))
      (service_valkey n client marshal jtext ttl now) trust"
    and ends: "running (snd w)" "laps (snd w) 0 < fuel"
    and run: "SearchMemory decode (router fuel) r w = (resp, w')"
  shows "rp_status resp \<in> {200, 400, 500} \<and>
    (\<forall>n \<ge> fuel. SearchMemory decode (router n) r w = (resp, w')) \<and>
    rp_body resp \<noteq> Failure [] (Wrap ''valkey search'' (Wrap ''valkey scan'' (Driver ''context canceled''))) \<and>
    rp_body resp \<noteq> Failure [] (Wrap ''postgres search'' slice_panic) \<and>
    (\<forall>res. rp_body resp = Json (JSearch res) \<longrightarrow> rp_status resp = 200 \<and> length (res_Results res) \<le> 200) \<and>
    c_db (fst w') = c_db (fst w) \<and> entry (snd w') = entry (snd w)"
proof (cases "decode (hr_Body r)")
  case None
  then show ?thesis using run by (auto simp: SearchMemory_def bad_request_def Error_def)
next
  case (Some req)
  let ?q = "search_query req"
  obtain res w1 where search: "rt_Search (router fuel) ?q w = (res, w1)" by (rule prod.exhaust)
  have q: "0 \<le> sq_Offset ?q" "1 \<le> sq_Limit ?q" "sq_Limit ?q \<le> 100" "int64 (sq_Offset ?q + sq_Limit ?q)"
    using search_limit_range [of "shr_Limit req"] by (simp_all add: search_query_def int64_def)
  note sound = scanning_client.gather_Search [OF scan router q(1,2,4) ends search]
  have more: "SearchMemory decode (router n) r w = (resp, w')" if "fuel \<le> n" for n
    using run scanning_client.more_fuel [OF scan router ends that, of ?q] Some
    by (simp add: SearchMemory_def answer_def)
  have resp: "(resp, w') = (case res of Inl e \<Rightarrow> (ErrorOf [] e 500, w1) | Inr v \<Rightarrow> (Reply 200 (JSearch v), w1))"
    using run Some search by (simp add: SearchMemory_def answer_def split: sum.splits)
  have "length (res_Results v) \<le> 200" if "res = Inr v" for v using sound(4) [OF that] q(3) by simp
  then show ?thesis
    using resp sound(1-3) more by (auto simp: ErrorOf_def Reply_def split: sum.splits)
qed

text \<open>On the reference server one reply is enough, even for an absurd limit.\<close>

theorem SearchMemory_answers_witness:
  "rp_status (fst (SearchMemory (\<lambda>_. Some \<lparr>shr_Query = ''q'', shr_Types = [], shr_Namespaces = [''ns''], shr_AgentDID = [],
      shr_Limit = - 5\<rparr>) (service_router (service_postgres Inr Some 0 0 (Some (Search placeholder_embedding (\<lambda>_ _. None) (\<lambda>_ _. True) (\<lambda>_ _. 1) rev)))
        (service_valkey 1 (reference_server (\<lambda>_ _. True)) Inr (\<lambda>_. []) 60 0) None)
      (sample_http ''POST'' ''/api/memory/search'' ''did:a'') (sample_world [] []))) \<in> {200, 400, 500}"
proof -
  let ?router = "\<lambda>n. service_router (service_postgres Inr Some 0 0 (Some (Search placeholder_embedding (\<lambda>_ _. None) (\<lambda>_ _. True) (\<lambda>_ _. 1) rev)))
        (service_valkey n (reference_server (\<lambda>_ _. True)) Inr (\<lambda>_. []) 60 0) None"
  have "server_running (snd (sample_world [] []))" by (simp add: server_running_def sample_policy_defs)
  then show ?thesis
    using SearchMemory_answers [OF reference_scan.scanning_client_axioms refl, of "sample_world [] []" 1] by (metis prod.collapse zero_less_one)
qed

end
