(* ===== verification/Api_Routes.thy ===== *)
theory Api_Routes
  imports Api_Handlers Storage
begin

text \<open>
  \<open>internal/api/router.go\<close>: which components there are, how they are put together, and which
  request reaches which handler through which middleware. Paths are taken to be clean (without
  empty segments, \<open>.\<close>, \<open>..\<close> or escapes); \<open>ServeMux\<close> redirects the others before it routes them.
\<close>

section \<open>What the service is built from\<close>

text \<open>The state: the database connection and Valkey, and the audit logger.\<close>

type_synonym 'k app = "'k world \<times> Logger"

text \<open>What the libraries decode a body to, for each of the handlers' request structs.\<close>

record decoders =
  de_store :: "bytes \<Rightarrow> StoreMemoryRequest option"
  de_search :: "bytes \<Rightarrow> SearchMemoryRequest option"
  de_policy :: "bytes \<Rightarrow> Policy option"
  de_request :: "bytes \<Rightarrow> Request option"
  de_key :: "bytes \<Rightarrow> string option"
  de_attestation :: "bytes \<Rightarrow> (string \<times> string \<times> string) option"
  de_target :: "bytes \<Rightarrow> string option"
  de_success :: "bytes \<Rightarrow> bool option"
  de_forget :: "bytes \<Rightarrow> (string \<times> bool) option"
  de_agent :: "bytes \<Rightarrow> string option"
  de_correction :: "bytes \<Rightarrow> (string \<times> bytes) option"

text \<open>
  The libraries: the Valkey client, case folding beyond ASCII, base58, base64, the server's and
  \<open>google/uuid\<close>'s reading of identifiers, JSON, RFC 3339, the distance of embeddings, text search
  and its rank, and the MCP server, which is given the tool and handles requests with it.
\<close>

record 'k libs =
  lb_client :: "'k kv_commands"
  lb_fold :: "string \<Rightarrow> string \<Rightarrow> bool"
  lb_encode58 :: "bytes \<Rightarrow> string"
  lb_decode58 :: "string \<Rightarrow> error + bytes"
  lb_base64 :: "string \<Rightarrow> bytes option"
  lb_uuid_in :: "string \<Rightarrow> uuid option"
  lb_uuid_parse :: "string \<Rightarrow> uuid option"
  lb_marshal :: "bytes \<Rightarrow> error + bytes"
  lb_jsonb :: "bytes \<Rightarrow> bytes option"
  lb_jtext :: "kvalue \<Rightarrow> string"
  lb_time :: "string \<Rightarrow> time option"
  lb_cdist :: "rat list \<Rightarrow> rat list \<Rightarrow> rat option"
  lb_tsmatch :: "string \<Rightarrow> bytes \<Rightarrow> bool"
  lb_rank :: "string \<Rightarrow> bytes \<Rightarrow> rat"
  lb_decode :: decoders
  lb_mcp :: "(string option \<Rightarrow> 'k app \<Rightarrow> tool_result \<times> 'k app) \<Rightarrow> ('k app, json) handler"

text \<open>
  What is drawn anew for each request: readings of the clock, a fresh identifier, a key pair, the
  database's \<open>RANDOM()\<close> and the order in which it scans, where an export stops, the order of a Go
  map, the replies a scan of Valkey takes, the measured duration.
\<close>

record draws =
  dw_t1 :: time
  dw_t2 :: time
  dw_id :: uuid
  dw_keys :: "error + bytes \<times> bytes"
  dw_random :: "string \<Rightarrow> int"
  dw_scan :: "Memory list \<Rightarrow> Memory list"
  dw_received :: "nat option"
  dw_iter :: "uuid list \<Rightarrow> uuid list"
  dw_fuel :: nat
  dw_ms :: int

text \<open>Which of the two connections there are; \<open>nil\<close> handles are passed on by \<open>main\<close>.\<close>

record handles =
  hn_pg :: bool
  hn_vk :: bool

section \<open>The components\<close>

definition dummyEmbedder :: "string \<Rightarrow> error + rat list" where
  "dummyEmbedder text = Inr (replicate 1536 0)"

definition searcher :: "'k libs \<Rightarrow> draws \<Rightarrow> SearchQuery \<Rightarrow> (conn, SearchResult) proc" where
  "searcher L D = Search dummyEmbedder (lb_cdist L) (lb_tsmatch L) (lb_rank L) (dw_iter D)"

definition pgStore :: "'k libs \<Rightarrow> draws \<Rightarrow> conn MemoryStore" where
  "pgStore L D = PostgresStore (lb_marshal L) (lb_jsonb L) (dw_t1 D) (dw_t1 D) (Some (searcher L D))"

definition vkStore :: "'k libs \<Rightarrow> draws \<Rightarrow> 'k MemoryStore" where
  "vkStore L D = ValkeyStore (dw_fuel D) (lb_client L) (lb_marshal L) (lb_jtext L) (default_ttl (24 * 3600)) (dw_t1 D)"

definition memRouter :: "'k libs \<Rightarrow> draws \<Rightarrow> 'k world Router" where
  "memRouter L D =
     service_router (lift_memory_store fst on_conn (pgStore L D)) (lift_memory_store snd on_kv (vkStore L D)) None"

definition policyStore :: "draws \<Rightarrow> 'k world PolicyStore" where
  "policyStore D = service_store (dw_t1 D)"

definition evaluator :: "'k libs \<Rightarrow> draws \<Rightarrow> Request \<Rightarrow> 'k world \<Rightarrow> (Result \<times> error option) \<times> 'k world" where
  "evaluator L D = Evaluate (lb_fold L) (Some (service_cache (lb_client L))) (policyStore D)"

section \<open>Endpoints\<close>

datatype endpoint =
    GetHealth
  | PostAgent | GetAgents | GetAgent
  | PostAttestation | GetAttestations
  | PostVerification | PostResult
  | PostMemory | PostSearch
  | PostPolicy | PostEvaluate
  | GetAudit
  | PostForget | GetExport | PutRectify
  | McpSSE | McpMessage

text \<open>A handler on a part of the state.\<close>

definition focus :: "('w \<Rightarrow> 's) \<Rightarrow> ('s \<Rightarrow> 'w \<Rightarrow> 'w) \<Rightarrow> ('s, 'j) handler \<Rightarrow> ('w, 'j) handler" where
  "focus get put h r w = (case h r (get w) of (resp, s) \<Rightarrow> (resp, put s w))"

definition on_world :: "('k world, 'j) handler \<Rightarrow> ('k app, 'j) handler" where
  "on_world = focus fst (\<lambda>w s. (w, snd s))"

definition on_db :: "(conn, 'j) handler \<Rightarrow> ('k app, 'j) handler" where
  "on_db h = on_world (focus fst on_conn h)"

text \<open>
  The wrapped handlers. The tool has the persistent store only.
\<close>

definition auditMW :: "draws \<Rightarrow> ('k app, json) handler \<Rightarrow> ('k app, json) handler" where
  "auditMW D = AuditMiddleware True (dw_ms D)"

definition policyMW :: "'k libs \<Rightarrow> draws \<Rightarrow> ('k world, json) handler \<Rightarrow> ('k world, json) handler" where
  "policyMW L D = PolicyMiddleware (evaluator L D)"

definition mcp_tool :: "'k libs \<Rightarrow> draws \<Rightarrow> string option \<Rightarrow> 'k app \<Rightarrow> tool_result \<times> 'k app" where
  "mcp_tool L D arg s =
     (case handleMemoryRetrieve (lb_uuid_parse L) (pgStore L D) arg (fst (fst s)) of
        (x, c) \<Rightarrow> (x, (on_conn c (fst s), snd s)))"

fun endpoint_handler :: "'k libs \<Rightarrow> draws \<Rightarrow> handles \<Rightarrow> endpoint \<Rightarrow> ('k app, json) handler" where
  "endpoint_handler L D H GetHealth =
     on_world (HealthHandler (if hn_pg H then Some (lift fst on_conn postgres_Ping) else None)
       (if hn_vk H then Some (lift snd on_kv (valkey_Ping (lb_client L))) else None))"
| "endpoint_handler L D H PostAgent =
     on_db (RegisterAgentHandler (hn_pg H) (de_key (lb_decode L)) (lb_encode58 L) (lb_decode58 L) (dw_keys D) (dw_t1 D) (dw_t2 D))"
| "endpoint_handler L D H GetAgents = on_db (ListAgentsHandler (hn_pg H))"
| "endpoint_handler L D H GetAgent = on_db (GetAgentHandler (hn_pg H))"
| "endpoint_handler L D H PostAttestation =
     on_db (CreateAttestationHandler (hn_pg H) (de_attestation (lb_decode L)) (lb_base64 L) (lb_uuid_in L) (dw_t1 D) (dw_t2 D) (dw_id D))"
| "endpoint_handler L D H GetAttestations = on_db (ListAttestationsHandler (hn_pg H) (lb_uuid_in L))"
| "endpoint_handler L D H PostVerification =
     on_db (CreateVerificationHandler (hn_pg H) (de_target (lb_decode L)) (dw_random D) (dw_t1 D) (dw_id D))"
| "endpoint_handler L D H PostResult =
     on_db (SubmitVerificationResultHandler (hn_pg H) (de_success (lb_decode L)) (lb_uuid_in L) (dw_t1 D) (dw_id D))"
| "endpoint_handler L D H PostMemory =
     auditMW D (on_world (policyMW L D
       (StoreMemory (de_store (lb_decode L)) (memRouter L D) (lb_marshal L) (dw_id D) (dw_t1 D) (dw_t2 D))))"
| "endpoint_handler L D H PostSearch =
     auditMW D (on_world (policyMW L D (SearchMemory (de_search (lb_decode L)) (memRouter L D))))"
| "endpoint_handler L D H PostPolicy =
     auditMW D (on_world (CreatePolicy (de_policy (lb_decode L)) (policyStore D)))"
| "endpoint_handler L D H PostEvaluate =
     auditMW D (on_world (EvaluatePolicy (de_request (lb_decode L)) (evaluator L D)))"
| "endpoint_handler L D H GetAudit = auditMW D (on_db (QueryAudit (lb_time L)))"
| "endpoint_handler L D H PostForget = auditMW D (on_db (RightToForget (de_forget (lb_decode L)) (dw_t1 D)))"
| "endpoint_handler L D H GetExport =
     auditMW D (on_db (ExportData (de_agent (lb_decode L)) (dw_scan D) (dw_received D)))"
| "endpoint_handler L D H PutRectify =
     auditMW D (on_db (RectifyData (de_correction (lb_decode L)) (lb_uuid_in L) (lb_jsonb L) (dw_t1 D)))"
| "endpoint_handler L D H McpSSE = lb_mcp L (mcp_tool L D)"
| "endpoint_handler L D H McpMessage = lb_mcp L (mcp_tool L D)"

section \<open>Routes\<close>

datatype segment = Seg string | Wild string

text \<open>
  The patterns with their methods, in the order of registration; an empty method stands for any.
  The second part is only registered with both connections.
\<close>

definition base_routes :: "(string \<times> segment list \<times> endpoint) list" where
  "base_routes =
     [(''GET'', [Seg ''health''], GetHealth),
      (''POST'', [Seg ''api'', Seg ''trust'', Seg ''agents''], PostAgent),
      (''GET'', [Seg ''api'', Seg ''trust'', Seg ''agents''], GetAgents),
      (''GET'', [Seg ''api'', Seg ''trust'', Seg ''agents'', Wild ''did''], GetAgent),
      (''POST'', [Seg ''api'', Seg ''trust'', Seg ''attestations''], PostAttestation),
      (''GET'', [Seg ''api'', Seg ''trust'', Seg ''attestations'', Seg ''memory'', Wild ''memory_id''], GetAttestations),
      (''POST'', [Seg ''api'', Seg ''trust'', Seg ''verifications''], PostVerification),
      (''POST'', [Seg ''api'', Seg ''trust'', Seg ''verifications'', Wild ''id'', Seg ''result''], PostResult)]"

definition engine_routes :: "(string \<times> segment list \<times> endpoint) list" where
  "engine_routes =
     [(''POST'', [Seg ''api'', Seg ''memory''], PostMemory),
      (''POST'', [Seg ''api'', Seg ''memory'', Seg ''search''], PostSearch),
      (''POST'', [Seg ''api'', Seg ''policies''], PostPolicy),
      (''POST'', [Seg ''api'', Seg ''policies'', Seg ''evaluate''], PostEvaluate),
      (''GET'', [Seg ''api'', Seg ''audit''], GetAudit),
      (''POST'', [Seg ''api'', Seg ''gdpr'', Seg ''forget''], PostForget),
      (''GET'', [Seg ''api'', Seg ''gdpr'', Seg ''export''], GetExport),
      (''PUT'', [Seg ''api'', Seg ''gdpr'', Seg ''rectify''], PutRectify),
      ([], [Seg ''mcp'', Seg ''sse''], McpSSE),
      ([], [Seg ''mcp'', Seg ''message''], McpMessage)]"

definition RegisterRoutes :: "handles \<Rightarrow> (string \<times> segment list \<times> endpoint) list" where
  "RegisterRoutes H = base_routes @ (if hn_pg H \<and> hn_vk H then engine_routes else [])"

text \<open>
  \<open>net/http\<close>'s \<open>ServeMux\<close>: a wildcard matches one nonempty segment, a pattern for \<open>GET\<close> also \<open>HEAD\<close>.
  Without a pattern for the path the answer is 404, without one for the method 405.
\<close>

fun seg_match :: "segment list \<Rightarrow> string list \<Rightarrow> (string \<times> string) list option" where
  "seg_match [] [] = Some []"
| "seg_match (Seg s # ps) (x # xs) = (if x = s then seg_match ps xs else None)"
| "seg_match (Wild v # ps) (x # xs) = (if x = [] then None else map_option (\<lambda>vs. (v, x) # vs) (seg_match ps xs))"
| "seg_match _ _ = None"

definition path_segments :: "string \<Rightarrow> string list" where
  "path_segments path = tl (Split CHR ''/'' path)"

definition method_matches :: "string \<Rightarrow> string \<Rightarrow> bool" where
  "method_matches m method \<longleftrightarrow> m = [] \<or> m = method \<or> (m = ''GET'' \<and> method = ''HEAD'')"

definition path_routes :: "handles \<Rightarrow> string \<Rightarrow> (string \<times> segment list \<times> endpoint) list" where
  "path_routes H path = filter (\<lambda>(m, p, e). seg_match p (path_segments path) \<noteq> None) (RegisterRoutes H)"

definition route :: "handles \<Rightarrow> string \<Rightarrow> string \<Rightarrow> (string \<times> segment list \<times> endpoint) option" where
  "route H method path = find (\<lambda>(m, p, e). method_matches m method) (path_routes H path)"

definition with_values :: "segment list \<Rightarrow> http_request \<Rightarrow> http_request" where
  "with_values p r = r\<lparr>hr_PathValue := \<lambda>v.
     case seg_match p (path_segments (hr_Path r)) of
       None \<Rightarrow> [] | Some vs \<Rightarrow> (case map_of vs v of None \<Rightarrow> [] | Some x \<Rightarrow> x)\<rparr>"

definition ServeHTTP :: "'k libs \<Rightarrow> draws \<Rightarrow> handles \<Rightarrow> ('k app, json) handler" where
  "ServeHTTP L D H r s =
     (case route H (hr_Method r) (hr_Path r) of
        Some (m, p, e) \<Rightarrow> endpoint_handler L D H e (with_values p r) s
      | None \<Rightarrow>
          (if path_routes H (hr_Path r) = [] then Error ''404 page not found'' 404
           else Error ''Method Not Allowed'' 405, s))"

end
