(* ===== verification/Service_History.thy ===== *)
theory Service_History
  imports Api_Routes
begin

text \<open>
  What the tables may do over time, as a relation between two states of the database: the schema
  and the range of the scores are kept, the logs only grow, a decided verification stays as it
  is, and a deleted memory is never changed again. First the single changes of a table, then the
  operations, by the specification that each of them refines.
\<close>

section \<open>The relation\<close>

definition sound :: "db \<Rightarrow> bool" where
  "sound d \<longleftrightarrow> db_ok d \<and> scores_ok d"

definition agent_after :: "Agent \<Rightarrow> Agent \<Rightarrow> bool" where
  "agent_after a a' \<longleftrightarrow> ag_DID a' = ag_DID a \<and> ag_PublicKey a' \<in> {ag_PublicKey a, []}"

definition verification_after :: "Verification \<Rightarrow> Verification \<Rightarrow> bool" where
  "verification_after v v' \<longleftrightarrow>
     v' = v \<or> (vf_Status v = ''pending'' \<and> (\<exists>st \<in> {''completed'', ''failed''}. v' = v\<lparr>vf_Status := st\<rparr>))"

definition memory_after :: "Memory \<Rightarrow> Memory \<Rightarrow> bool" where
  "memory_after m m' \<longleftrightarrow>
     m_ID m' = m_ID m \<and> m_Type m' = m_Type m \<and> m_Namespace m' = m_Namespace m \<and> m_AgentDID m' = m_AgentDID m \<and>
     (live_row m \<or> m' = m)"

definition history :: "db \<Rightarrow> db \<Rightarrow> bool" where
  "history d d' \<longleftrightarrow>
     (\<forall>a \<in> set (t_agents d). \<exists>a' \<in> set (t_agents d'). agent_after a a') \<and>
     (\<forall>v \<in> set (t_verifications d). \<exists>v' \<in> set (t_verifications d'). verification_after v v') \<and>
     (\<forall>m \<in> set (t_memories d). \<exists>m' \<in> set (t_memories d'). memory_after m m') \<and>
     (\<exists>new. t_reputation_events d' = t_reputation_events d @ new) \<and>
     (\<exists>new. t_attestations d' = t_attestations d @ new) \<and>
     (\<exists>new. t_audit_log d' = t_audit_log d @ new)"

definition evolves :: "db \<Rightarrow> db \<Rightarrow> bool" where
  "evolves d d' \<longleftrightarrow> (sound d \<longrightarrow> sound d' \<and> history d d')"

lemma after_refl [simp]: "agent_after a a" "verification_after v v" "memory_after m m"
  by (simp_all add: agent_after_def verification_after_def memory_after_def)

lemma history_refl [simp]: "history d d"
  by (auto simp: history_def intro: after_refl)

lemma agent_after_trans: "agent_after a b \<Longrightarrow> agent_after b c \<Longrightarrow> agent_after a c"
  by (auto simp: agent_after_def)

lemma verification_after_trans: "verification_after u v \<Longrightarrow> verification_after v w \<Longrightarrow> verification_after u w"
  by (auto simp: verification_after_def)

lemma memory_after_trans: "memory_after m n \<Longrightarrow> memory_after n k \<Longrightarrow> memory_after m k"
  by (auto simp: memory_after_def)

lemma history_trans:
  assumes 1: "history d d1" and 2: "history d1 d2"
  shows "history d d2"
proof -
  have "\<forall>a \<in> set (t_agents d). \<exists>b \<in> set (t_agents d2). agent_after a b"
    using 1 2 unfolding history_def by (meson agent_after_trans)
  moreover have "\<forall>a \<in> set (t_verifications d). \<exists>b \<in> set (t_verifications d2). verification_after a b"
    using 1 2 unfolding history_def by (meson verification_after_trans)
  moreover have "\<forall>a \<in> set (t_memories d). \<exists>b \<in> set (t_memories d2). memory_after a b"
    using 1 2 unfolding history_def by (meson memory_after_trans)
  ultimately show ?thesis using 1 2 unfolding history_def by (elim conjE exE) simp
qed

lemma evolves_refl [simp]: "evolves d d"
  by (simp add: evolves_def)

lemma evolves_trans: "evolves d d1 \<Longrightarrow> evolves d1 d2 \<Longrightarrow> evolves d d2"
  by (auto simp: evolves_def intro: history_trans)

lemma evolvesI: "(sound d \<Longrightarrow> db_ok d' \<and> scores_ok d' \<and> history d d') \<Longrightarrow> evolves d d'"
  by (simp add: evolves_def sound_def)

section \<open>Changes of one table\<close>

lemma history_agents:
  "(\<And>a. a \<in> set (t_agents d) \<Longrightarrow> \<exists>b \<in> set rows. agent_after a b) \<Longrightarrow> history d (d\<lparr>t_agents := rows\<rparr>)"
  by (auto simp: history_def intro: after_refl)

lemma history_memories:
  "(\<And>a. a \<in> set (t_memories d) \<Longrightarrow> \<exists>b \<in> set rows. memory_after a b) \<Longrightarrow> history d (d\<lparr>t_memories := rows\<rparr>)"
  by (auto simp: history_def intro: after_refl)

lemma history_verifications:
  "(\<And>a. a \<in> set (t_verifications d) \<Longrightarrow> \<exists>b \<in> set rows. verification_after a b) \<Longrightarrow>
     history d (d\<lparr>t_verifications := rows\<rparr>)"
  by (auto simp: history_def intro: after_refl)

lemma history_grow:
  "history d (d\<lparr>t_reputation_events := t_reputation_events d @ es\<rparr>)"
  "history d (d\<lparr>t_attestations := t_attestations d @ as\<rparr>)"
  "history d (d\<lparr>t_audit_log := t_audit_log d @ ls\<rparr>)"
  "history d (d\<lparr>t_policies := ps\<rparr>)"
  by (auto simp: history_def intro: after_refl)

lemma set_where_image: "r \<in> set t \<Longrightarrow> (if p r then f r else r) \<in> set (set_where p f t)"
  by (auto simp: set_set_where)

lemma scores_ok_frame:
  "t_agents d' = t_agents d \<Longrightarrow> scores_ok d' = scores_ok d"
  by (simp add: scores_ok_def)

text \<open>A change of the agents that keeps their names and, or clears, their keys.\<close>

lemma evolves_agents:
  assumes "\<And>a. a \<in> set (t_agents d) \<Longrightarrow> p a \<Longrightarrow> agent_after a (f a) \<and> 0 \<le> ag_ReputationScore (f a) \<and> ag_ReputationScore (f a) \<le> 1000"
  shows "evolves d (d\<lparr>t_agents := set_where p f (t_agents d)\<rparr>)"
proof (rule evolvesI)
  let ?d = "d\<lparr>t_agents := set_where p f (t_agents d)\<rparr>"
  assume ok: "sound d"
  have ids: "map ag_DID (set_where p f xs) = map ag_DID xs" if "set xs \<subseteq> set (t_agents d)" for xs
    using that assms by (induction xs) (auto simp: agent_after_def)
  have has: "has_agent x ?d = has_agent x d" for x
    using ids [OF subset_refl] by (intro has_agent_cong) (simp, metis list.set_map)
  have scores: "0 \<le> ag_ReputationScore b \<and> ag_ReputationScore b \<le> 1000" if "b \<in> set (t_agents ?d)" for b
    using that ok assms by (auto simp: set_set_where sound_def scores_ok_def)
  then have "scores_ok ?d" by (simp add: scores_ok_def)
  moreover have "keys_ok ?d" using ok ids [OF subset_refl] by (simp add: sound_def db_ok_def keys_ok_def)
  moreover have "refs_ok ?d" using ok has by (simp add: sound_def db_ok_def refs_ok_def)
  moreover have "columns_ok ?d"
    using ok scores by (fastforce simp: sound_def db_ok_def columns_ok_def int4_def)
  moreover have "history d ?d"
    using assms by (intro history_agents) (metis after_refl(1) set_where_image)
  ultimately show "db_ok ?d \<and> scores_ok ?d \<and> history d ?d" by (simp add: db_ok_def)
qed

lemma evolves_score:
  assumes "0 \<le> s" and "s \<le> 1000"
  shows "evolves d (d\<lparr>t_agents := set_where p (scored s la) (t_agents d)\<rparr>)"
  using assms by (intro evolves_agents) (simp add: agent_after_def)

text \<open>A change of readable memories that keeps what identifies them.\<close>

lemma evolves_memories:
  assumes p: "\<And>m. p m \<Longrightarrow> live_row m"
    and f: "\<And>m. m_ID (f m) = m_ID m \<and> m_Type (f m) = m_Type m \<and> m_Namespace (f m) = m_Namespace m \<and>
      m_AgentDID (f m) = m_AgentDID m \<and> m_DistilledFrom (f m) = m_DistilledFrom m"
  shows "evolves d (d\<lparr>t_memories := set_where p f (t_memories d)\<rparr>)"
proof (rule evolvesI)
  let ?d = "d\<lparr>t_memories := set_where p f (t_memories d)\<rparr>"
  assume ok: "sound d"
  have ids: "map m_ID (t_memories ?d) = map m_ID (t_memories d)" using f by (simp add: map_key_set_where)
  then have mem: "has_memory i ?d = has_memory i d" for i by (metis has_memory_cong list.set_map)
  have "keys_ok ?d" using ok ids by (simp add: sound_def db_ok_def keys_ok_def)
  moreover have "refs_ok ?d"
    using ok f mem by (auto simp: sound_def db_ok_def refs_ok_def set_set_where)
  moreover have "columns_ok ?d" using ok f by (auto simp: sound_def db_ok_def columns_ok_def set_set_where)
  moreover have "scores_ok ?d" using ok by (simp add: sound_def scores_ok_def)
  moreover have "history d ?d"
  proof (rule history_memories)
    fix m assume "m \<in> set (t_memories d)"
    then show "\<exists>m' \<in> set (set_where p f (t_memories d)). memory_after m m'"
      using p f by (intro bexI [OF _ set_where_image]) (auto simp: memory_after_def)
  qed
  ultimately show "db_ok ?d \<and> scores_ok ?d \<and> history d ?d" by (simp add: db_ok_def)
qed

section \<open>The statements and the specifications of the transactions\<close>

lemma evolves_insert_agent:
  assumes "insert_agent a d = Inr (u, d')" and "0 \<le> ag_ReputationScore a" "ag_ReputationScore a \<le> 1000"
  shows "evolves d d'"
proof (rule evolvesI)
  assume ok: "sound d"
  have d': "d' = d\<lparr>t_agents := t_agents d @ [a]\<rparr>" using assms(1) by (simp add: insert_agent_def split: if_splits)
  have "history d d'" unfolding d' by (rule history_agents) (auto intro: after_refl)
  moreover have "scores_ok d'" using ok assms(2,3) by (auto simp: d' sound_def scores_ok_def)
  ultimately show "db_ok d' \<and> scores_ok d' \<and> history d d'"
    using insert_agent_db_ok [OF assms(1)] ok by (simp add: sound_def)
qed

lemma evolves_insert_event:
  assumes "insert_event e d = Inr (u, d')"
  shows "evolves d d'"
proof (rule evolvesI)
  assume ok: "sound d"
  have d': "d' = d\<lparr>t_reputation_events := t_reputation_events d @ [e]\<rparr>"
    using assms(1) by (simp add: insert_event_def split: if_splits)
  show "db_ok d' \<and> scores_ok d' \<and> history d d'"
    using insert_event_db_ok [OF assms] ok history_grow(1) scores_ok_frame [of d' d] by (simp add: sound_def d')
qed

lemma evolves_add_attestation:
  assumes "at_ID a \<notin> at_ID ` set (t_attestations d)" and "has_agent (at_AgentDID a) d"
  shows "evolves d (d\<lparr>t_attestations := t_attestations d @ [a]\<rparr>)"
  using assms history_grow(2) [of d "[a]"]
  by (intro evolvesI) (auto simp: sound_def db_ok_def keys_ok_def refs_ok_def columns_ok_def scores_ok_def)

lemma evolves_save:
  assumes "save_spec uuid_in t now aid a d = Some (v, d')"
  shows "evolves d d'"
proof (cases "sound d")
  case ok: True
  obtain mid g where mid: "uuid_in (at_MemoryID a) = Some mid" and g: "find_agent (at_AgentDID a) d = Some g"
    using assms by (auto simp: save_spec_def split: option.splits)
  define s where "s = min 1000 (add64 (ag_ReputationScore g) 25)"
  define x where "x = (stamped t a)\<lparr>at_ID := aid, at_MemoryID := mid\<rparr>"
  have d': "d' = (d\<lparr>t_attestations := t_attestations d @ [x]\<rparr>)
      \<lparr>t_agents := set_where (\<lambda>b. ag_DID b = at_AgentDID a) (scored s (Some now)) (t_agents d)\<rparr>"
    and fresh: "aid \<notin> at_ID ` set (t_attestations d)"
    using assms mid g unfolding save_spec_def s_def x_def by (auto simp: Let_def split: if_splits)
  have "0 \<le> ag_ReputationScore g \<and> ag_ReputationScore g \<le> 1000" using ok g by (auto simp: sound_def dest: scores_okD)
  then have s: "0 \<le> s" "s \<le> 1000" by (simp_all add: s_def add64_exact int64_def)
  have "evolves d (d\<lparr>t_attestations := t_attestations d @ [x]\<rparr>)"
    using fresh g by (intro evolves_add_attestation) (simp_all add: x_def has_agent_find)
  moreover have "evolves (d\<lparr>t_attestations := t_attestations d @ [x]\<rparr>) d'"
    using evolves_score [OF s, of "d\<lparr>t_attestations := t_attestations d @ [x]\<rparr>"] by (simp add: d')
  ultimately show ?thesis by (rule evolves_trans)
qed (simp add: evolves_def)

lemma evolves_insert_verification:
  assumes "insert_verification v d = Inr (i, d')"
  shows "evolves d d'"
proof (rule evolvesI)
  assume ok: "sound d"
  have d': "d' = d\<lparr>t_verifications := t_verifications d @ [v]\<rparr>" "vf_ID v \<notin> vf_ID ` set (t_verifications d)"
    "has_agent (vf_TargetDID v) d" "has_agent (vf_VerifierDID v) d"
    using assms by (auto simp: insert_verification_def split: if_splits)
  have "history d d'" unfolding d'(1) by (rule history_verifications) (auto intro: after_refl)
  then show "db_ok d' \<and> scores_ok d' \<and> history d d'"
    using ok d' by (auto simp: sound_def db_ok_def keys_ok_def refs_ok_def columns_ok_def scores_ok_def)
qed

lemma evolves_decide:
  assumes find: "find_row vf_ID u (t_verifications d) = Some v" and pending: "vf_Status v = ''pending''"
    and st: "st \<in> {''completed'', ''failed''}"
  shows "evolves d (d\<lparr>t_verifications := set_where (\<lambda>w. vf_ID w = u) (\<lambda>w. w\<lparr>vf_Status := st\<rparr>) (t_verifications d)\<rparr>)"
proof (rule evolvesI)
  let ?f = "\<lambda>w. w\<lparr>vf_Status := st\<rparr>"
  let ?d = "d\<lparr>t_verifications := set_where (\<lambda>w. vf_ID w = u) ?f (t_verifications d)\<rparr>"
  assume ok: "sound d"
  have v: "v \<in> set (t_verifications d)" "vf_ID v = u" using find_row_Some [OF find] by simp_all
  have ids: "map vf_ID (t_verifications ?d) = map vf_ID (t_verifications d)" by (simp add: map_key_set_where)
  have "history d ?d"
  proof (rule history_verifications)
    fix w assume w: "w \<in> set (t_verifications d)"
    have "w = v" if "vf_ID w = u"
      using ok w v that by (auto simp: sound_def db_ok_def keys_ok_def distinct_map inj_on_def)
    then have "verification_after w (if vf_ID w = u then ?f w else w)"
      using pending st by (auto simp: verification_after_def)
    then show "\<exists>w' \<in> set (set_where (\<lambda>w. vf_ID w = u) ?f (t_verifications d)). verification_after w w'"
      using set_where_image [OF w, of "\<lambda>w. vf_ID w = u" ?f] by blast
  qed
  moreover have "keys_ok ?d" using ok ids by (simp add: sound_def db_ok_def keys_ok_def)
  moreover have "refs_ok ?d" "columns_ok ?d" "scores_ok ?d"
    using ok by (auto simp: sound_def db_ok_def refs_ok_def columns_ok_def scores_ok_def set_set_where)
  ultimately show "db_ok ?d \<and> scores_ok ?d \<and> history d ?d" by (simp add: db_ok_def)
qed

lemma evolves_submit:
  assumes "submit_spec uuid_in now eid i success d = Some (u, d')"
  shows "evolves d d'"
proof (cases "sound d")
  case ok: True
  obtain k v where k: "uuid_in i = Some k" and v: "find_row vf_ID k (t_verifications d) = Some v"
      "vf_Status v = ''pending''"
    using assms by (auto simp: submit_spec_def split: option.splits if_splits)
  define did where "did = (if success then vf_VerifierDID v else vf_TargetDID v)"
  define d1 where "d1 = d\<lparr>t_verifications := set_where (\<lambda>w. vf_ID w = k)
    (\<lambda>w. w\<lparr>vf_Status := if success then ''completed'' else ''failed''\<rparr>) (t_verifications d)\<rparr>"
  have d1: "evolves d d1" unfolding d1_def by (rule evolves_decide [OF v]) simp
  show ?thesis
  proof (cases "find_agent did d")
    case None
    then show ?thesis
      using assms k v d1 by (simp add: submit_spec_def did_def [symmetric] d1_def [symmetric] Let_def)
  next
    case (Some g)
    define s where "s = (if success then min 1000 (add64 (ag_ReputationScore g) 50)
      else max 0 (sub64 (ag_ReputationScore g) 100))"
    define d2 where "d2 = d1\<lparr>t_agents := set_where (\<lambda>b. ag_DID b = did) (scored s (Some now)) (t_agents d)\<rparr>"
    have g: "0 \<le> ag_ReputationScore g \<and> ag_ReputationScore g \<le> 1000"
      using ok Some by (auto simp: sound_def dest: scores_okD)
    then have s: "0 \<le> s" "s \<le> 1000" by (simp_all add: s_def add64_exact sub64_exact int64_def)
    have d2: "evolves d1 d2"
      using evolves_score [OF s, of d1] by (simp add: d2_def d1_def)
    have "d' = d2 \<or> insert_event (event_row now eid did ''policy_violation'' (- 100)) d2 = Inr ((), d')"
      using assms k v Some
      by (auto simp: submit_spec_def did_def [symmetric] d1_def [symmetric] s_def [symmetric] d2_def [symmetric]
          insert_event_def event_row_def has_agent_find Let_def split: if_splits)
         (simp_all add: d2_def d1_def find_row_set_where_same int4_def)
    then show ?thesis
      using evolves_trans [OF d1 d2] evolves_trans [OF evolves_trans [OF d1 d2] evolves_insert_event] by blast
  qed
qed (simp add: evolves_def)

lemma evolves_insert_memory:
  assumes "insert_memory jsonb content m d = Inr (u, d')"
  shows "evolves d d'"
proof (rule evolvesI)
  assume ok: "sound d"
  obtain stored where d': "d' = d\<lparr>t_memories := t_memories d @ [m\<lparr>m_Content := stored, m_DeletedAt := None\<rparr>]\<rparr>"
    using assms by (rule insert_memory_row)
  have "history d d'" unfolding d' by (rule history_memories) (auto intro: after_refl)
  then show "db_ok d' \<and> scores_ok d' \<and> history d d'"
    using insert_memory_db_ok [OF assms] ok scores_ok_frame [of d' d] by (simp add: sound_def d')
qed

lemma evolves_upsert_policy:
  assumes "upsert_policy p d = Inr (u, d')"
  shows "evolves d d'"
proof (rule evolvesI)
  assume ok: "sound d"
  obtain ps where d': "d' = d\<lparr>t_policies := ps\<rparr>" using assms by (auto simp: upsert_policy_def split: if_splits)
  show "db_ok d' \<and> scores_ok d' \<and> history d d'"
    using upsert_policy_db_ok [OF assms] ok scores_ok_frame [of d' d] history_grow(4) by (simp add: sound_def d')
qed

lemma evolves_correct:
  assumes "correct_memory uuid_in jsonb now memoryID correction d = Inr (n, d')"
  shows "evolves d d'"
proof -
  obtain i x where d': "d' = d\<lparr>t_memories := set_where (\<lambda>m. m_ID m = i \<and> live_row m)
      (\<lambda>m. m\<lparr>m_Content := x, m_UpdatedAt := now\<rparr>) (t_memories d)\<rparr>"
    using assms by (auto simp: correct_memory_def Let_def split: option.splits)
  show ?thesis unfolding d' by (rule evolves_memories) simp_all
qed

lemma evolves_forgotten: "evolves d (forgotten now did d)"
proof -
  let ?d1 = "d\<lparr>t_memories := set_where (memory_of did) (mark_deleted now) (t_memories d)\<rparr>"
  let ?d2 = "?d1\<lparr>t_agents := set_where (\<lambda>a. ag_DID a = did) revoked (t_agents ?d1)\<rparr>"
  let ?d3 = "?d2\<lparr>t_policies := filter (\<lambda>p. p_AgentDID p \<noteq> did) (t_policies d)\<rparr>"
  have 1: "evolves d ?d1" by (rule evolves_memories) (simp_all add: memory_of_def)
  have 2: "evolves ?d1 ?d2" by (rule evolves_agents) (simp add: agent_after_def)
  have "evolves ?d2 ?d3"
  proof (rule evolvesI)
    assume ok: "sound ?d2"
    have "distinct (map p_ID (filter (\<lambda>p. p_AgentDID p \<noteq> did) (t_policies d)))"
      using ok by (simp add: sound_def db_ok_def keys_ok_def distinct_map_filter)
    then have "db_ok ?d3" using ok by (simp add: sound_def db_ok_def keys_ok_def refs_ok_def columns_ok_def)
    moreover have "scores_ok ?d3" using ok scores_ok_frame [of ?d3 ?d2] by (simp add: sound_def)
    moreover have "history ?d2 ?d3" by (rule history_grow(4))
    ultimately show "db_ok ?d3 \<and> scores_ok ?d3 \<and> history ?d2 ?d3" by blast
  qed
  from evolves_trans [OF evolves_trans [OF 1 2] this]
  have "evolves d ?d3" .
  moreover have "?d3 = forgotten now did d" unfolding forgotten_def by (rule db.equality) simp_all
  ultimately show ?thesis by (simp only:)
qed

lemma evolves_insert_audit:
  assumes "insert_audit i ts e d = Inr (u, d')"
  shows "evolves d d'"
proof (rule evolvesI)
  assume ok: "sound d"
  obtain r where d': "d' = d\<lparr>t_audit_log := t_audit_log d @ [r]\<rparr>"
    using assms by (auto simp: insert_audit_def split: if_splits)
  have "db_ok d' = db_ok d"
    unfolding d' by (simp add: db_ok_def keys_ok_def refs_ok_def columns_ok_def)
  then show "db_ok d' \<and> scores_ok d' \<and> history d d'"
    using ok scores_ok_frame [of d' d] history_grow(3) [of d "[r]"] by (simp add: sound_def d')
qed

end
