(* ===== verification/Service.thy ===== *)
theory Service
  imports Service_History
begin

text \<open>
  The running service: requests, the audit goroutines and changes of Valkey, in any order and with
  any failures. What holds of every component is put together here, through the relation of
  \<open>Service_History\<close>.
\<close>

section \<open>How an operation behaves\<close>

text \<open>
  No reply is lost: a call that reports an error has not been carried out.
\<close>

definition lossless :: "conn \<Rightarrow> bool" where
  "lossless c \<longleftrightarrow> (\<forall>e. Lost e \<notin> set (c_outcomes c))"

text \<open>
  \<open>behaves C bad m\<close>: \<open>m\<close> takes the database through changes the history allows, and, when no reply
  is lost, a \<open>bad\<close> result means that nothing has changed. \<open>C\<close> finds the connection in the state.
\<close>

definition behaves :: "('s \<Rightarrow> conn) \<Rightarrow> ('x \<Rightarrow> bool) \<Rightarrow> ('s \<Rightarrow> 'x \<times> 's) \<Rightarrow> bool" where
  "behaves C bad m \<longleftrightarrow>
     (\<forall>s x s'. m s = (x, s') \<longrightarrow> evolves (c_db (C s)) (c_db (C s')) \<and>
        (lossless (C s) \<longrightarrow> lossless (C s') \<and> (bad x \<longrightarrow> c_db (C s') = c_db (C s))))"

abbreviation reading :: "('s \<Rightarrow> conn) \<Rightarrow> ('s \<Rightarrow> 'x \<times> 's) \<Rightarrow> bool" where
  "reading C m \<equiv> behaves C (\<lambda>_. True) m"

definition refused :: "'j response \<Rightarrow> bool" where
  "refused resp \<longleftrightarrow> 400 \<le> rp_status resp"

lemma behavesI:
  assumes "\<And>s x s'. m s = (x, s') \<Longrightarrow> evolves (c_db (C s)) (c_db (C s'))"
    and "\<And>s x s'. m s = (x, s') \<Longrightarrow> lossless (C s) \<Longrightarrow> lossless (C s') \<and> (bad x \<longrightarrow> c_db (C s') = c_db (C s))"
  shows "behaves C bad m"
  using assms unfolding behaves_def by blast

lemma behavesD:
  assumes "behaves C bad m" and "m s = (x, s')"
  shows "evolves (c_db (C s)) (c_db (C s'))"
    and "lossless (C s) \<Longrightarrow> lossless (C s')" and "lossless (C s) \<Longrightarrow> bad x \<Longrightarrow> c_db (C s') = c_db (C s)"
  using assms unfolding behaves_def by blast+

lemma reading_behaves: "reading C m \<Longrightarrow> behaves C bad m"
  unfolding behaves_def by blast

lemma reading_same: "(\<And>s x s'. m s = (x, s') \<Longrightarrow> C s' = C s) \<Longrightarrow> reading C m"
  unfolding behaves_def by (metis evolves_refl)

text \<open>First \<open>m\<close>, which only reads, and then what depends on its result.\<close>

lemma behaves_after:
  assumes "reading C m" and "\<And>x. behaves C bad (k x)"
  shows "behaves C bad (\<lambda>s. case m s of (x, s') \<Rightarrow> k x s')"
  unfolding behaves_def
proof (intro allI impI)
  fix s y s'
  assume run: "(case m s of (x, s') \<Rightarrow> k x s') = (y, s')"
  obtain x s1 where m: "m s = (x, s1)" by (rule prod.exhaust)
  then have k: "k x s1 = (y, s')" using run by simp
  note 1 = behavesD [OF assms(1) m] and 2 = behavesD [OF assms(2) k]
  show "evolves (c_db (C s)) (c_db (C s')) \<and>
      (lossless (C s) \<longrightarrow> lossless (C s') \<and> (bad y \<longrightarrow> c_db (C s') = c_db (C s)))"
    using 1 2 evolves_trans by auto
qed

lemma behaves_return: "(\<And>s. m s = (x, s)) \<Longrightarrow> behaves C bad m"
  by (simp add: behaves_def)

lemma behaves_ret: "behaves C bad (ret v)"
  by (rule behaves_return) (simp add: ret_def)

lemma behaves_fail: "behaves C bad (fail e)"
  by (rule behaves_return) (simp add: fail_def)

lemma behaves_if: "(b \<Longrightarrow> behaves C bad m) \<Longrightarrow> (\<not> b \<Longrightarrow> behaves C bad n) \<Longrightarrow> behaves C bad (if b then m else n)"
  by simp

lemma behaves_attempt:
  assumes "reading C m" and "\<And>v. behaves C bad (k v)"
  shows "behaves C bad (attempt m w k)"
proof -
  have "attempt m w k = (\<lambda>s. case m s of (x, s') \<Rightarrow> (case x of Inl e \<Rightarrow> fail (w e) | Inr v \<Rightarrow> k v) s')"
    by (auto simp: attempt_def fail_def fun_eq_iff split: sum.splits prod.splits)
  then show ?thesis
    using assms by (auto intro!: behaves_after behaves_fail split: sum.splits)
qed

text \<open>A write, followed by a report that is an error only when nothing was written.\<close>

lemma behaves_report:
  assumes m: "behaves C isl m"
    and k: "\<And>s v s1. m s = (Inr v, s1) \<Longrightarrow>
      snd (k v s1) = s1 \<and> (isl (fst (k v s1)) \<longrightarrow> c_db (C s1) = c_db (C s))"
  shows "behaves C isl (attempt m w k)"
  unfolding behaves_def
proof (intro allI impI)
  fix s r s'
  assume run: "attempt m w k s = (r, s')"
  obtain x s1 where x: "m s = (x, s1)" by (rule prod.exhaust)
  note 1 = behavesD [OF m x]
  show "evolves (c_db (C s)) (c_db (C s')) \<and>
      (lossless (C s) \<longrightarrow> lossless (C s') \<and> (isl r \<longrightarrow> c_db (C s') = c_db (C s)))"
  proof (cases x)
    case (Inl e)
    then show ?thesis using run x 1 by (auto simp: attempt_def)
  next
    case (Inr v)
    then show ?thesis using run x 1 k [of s v s1] by (auto simp: attempt_def)
  qed
qed

lemma behaves_attempt_ret: "behaves C isl m \<Longrightarrow> behaves C isl (attempt m w (\<lambda>v. ret (g v)))"
  by (rule behaves_report) (simp_all add: ret_def)

lemmas behaves_rules = behaves_ret behaves_fail behaves_if behaves_attempt_ret behaves_attempt

subsection \<open>Calls on the connection\<close>

lemma next_outcome_lossless: "next_outcome c = (x, c') \<Longrightarrow> lossless c \<Longrightarrow> lossless c' \<and> (\<forall>e. x \<noteq> Lost e)"
  by (auto simp: next_outcome_def lossless_def split: list.splits)

lemma lossless_update [simp]:
  "lossless (c\<lparr>c_db := d\<rparr>) = lossless c" "lossless (c\<lparr>c_aborted := b\<rparr>) = lossless c"
  by (simp_all add: lossless_def)

lemma db_stmt_lossless:
  assumes "db_stmt f c = (r, c')" and "lossless c"
  shows "lossless c'" and "isl r \<Longrightarrow> c_db c' = c_db c"
proof -
  obtain x c1 where n: "next_outcome c = (x, c1)" by (rule prod.exhaust)
  note facts = next_outcome_lossless [OF n assms(2)] next_outcome_frame [OF n]
  show "lossless c'" and "isl r \<Longrightarrow> c_db c' = c_db c"
    using assms(1) n facts
    by (cases x; force simp: db_stmt_def split: sum.splits prod.splits)+
qed

lemma behaves_stmt:
  assumes "\<And>d v d'. f d = Inr (v, d') \<Longrightarrow> evolves d d'"
  shows "behaves id isl (db_stmt f)"
proof (rule behavesI)
  fix c r c'
  assume run: "db_stmt f c = (r, c')"
  show "evolves (c_db (id c)) (c_db (id c'))" using db_stmt_cases [OF run] assms by auto
next
  fix c r c'
  assume "db_stmt f c = (r, c')" and "lossless (id c)"
  then show "lossless (id c') \<and> (isl r \<longrightarrow> c_db (id c') = c_db (id c))"
    using db_stmt_lossless [of f c r c'] by simp
qed

lemma reading_stmt:
  assumes "\<And>d v d'. f d = Inr (v, d') \<Longrightarrow> d' = d"
  shows "reading id (db_stmt f)"
proof (rule behavesI)
  fix c r c'
  assume run: "db_stmt f c = (r, c')"
  show "evolves (c_db (id c)) (c_db (id c'))" using db_stmt_cases [OF run] assms by fastforce
next
  fix c r c'
  assume run: "db_stmt f c = (r, c')" and "lossless (id c)"
  then show "lossless (id c') \<and> (True \<longrightarrow> c_db (id c') = c_db (id c))"
    using db_stmt_lossless [of f c r c'] db_stmt_cases [OF run] assms by fastforce
qed

lemma reading_select: "reading id (db_stmt (select q))"
  by (rule reading_stmt) (simp add: select_def)

lemma reading_scan_row: "reading C (scan_row r)"
  unfolding scan_row_def by (cases r) (simp_all add: behaves_ret behaves_fail)

lemma reading_db_row: "reading id (db_row q)"
  unfolding db_row_def by (intro behaves_attempt reading_select reading_scan_row)

text \<open>Transactions: the body only has to leave the list of outcomes lossless.\<close>

lemma keeps_lossless_stmt: "keeps lossless (tx_stmt f)"
proof (rule keepsI)
  fix c r c'
  assume "lossless c" and "tx_stmt f c = (r, c')"
  moreover obtain x c1 where "next_outcome c = (x, c1)" by (rule prod.exhaust)
  ultimately show "lossless c'"
    using next_outcome_lossless [of c x c1]
    by (cases x) (auto simp: tx_stmt_def split: sum.splits prod.splits if_splits)
qed

lemma keeps_lossless_scan: "keeps lossless (scan_row r)"
  by (cases r) (simp_all add: scan_row_def keeps_ret keeps_fail)

lemma keeps_lossless_row: "keeps lossless (tx_row q)"
  unfolding tx_row_def by (intro keeps_attempt keeps_lossless_stmt keeps_lossless_scan)

lemmas lossless_rules = keeps_rules keeps_lossless_stmt keeps_lossless_row keeps_lossless_scan

definition clean :: "(conn, 'a) proc \<Rightarrow> bool" where
  "clean m \<longleftrightarrow>
     (\<forall>c r c'. m c = (r, c') \<longrightarrow> lossless c \<longrightarrow> lossless c' \<and> (isl r \<longrightarrow> c_db c' = c_db c))"

lemma clean_with_tx:
  assumes body: "keeps lossless body"
  shows "clean (with_tx w body)"
  unfolding clean_def
proof (intro allI impI)
  fix c r c'
  assume run: "with_tx w body c = (r, c')" and c: "lossless c"
  obtain x c1 where n: "next_outcome c = (x, c1)" by (rule prod.exhaust)
  note c1 = next_outcome_lossless [OF n c] next_outcome_frame [OF n]
  show "lossless c' \<and> (isl r \<longrightarrow> c_db c' = c_db c)"
  proof (cases x)
    case Served
    obtain q c2 where b: "body (c1\<lparr>c_aborted := False\<rparr>) = (q, c2)" by (rule prod.exhaust)
    have c2: "lossless c2" using keeps_run [OF body _ b] c1 by simp
    obtain y c3 where n2: "next_outcome c2 = (y, c3)" by (rule prod.exhaust)
    note c3 = next_outcome_lossless [OF n2 c2] next_outcome_frame [OF n2]
    show ?thesis
      using run n Served b c1 c2 c3 n2
      by (cases q; cases y) (auto simp: with_tx_def commit_def split: if_splits)
  qed (use run n c1 in \<open>auto simp: with_tx_def\<close>)
qed

lemma clean_fail: "clean (fail e)"
  by (simp add: clean_def fail_def)

lemma clean_if: "(b \<Longrightarrow> clean m) \<Longrightarrow> (\<not> b \<Longrightarrow> clean n) \<Longrightarrow> clean (if b then m else n)"
  by simp

lemma behaves_atomic:
  assumes "atomic m spec" and "\<And>d v d'. spec d = Some (v, d') \<Longrightarrow> evolves d d'" and "clean m"
  shows "behaves id isl m"
proof (rule behavesI)
  fix c r c'
  assume "m c = (r, c')"
  then show "evolves (c_db (id c)) (c_db (id c'))"
    using atomic_either [OF assms(1)] assms(2) by (metis evolves_refl id_apply)
next
  fix c r c'
  assume "m c = (r, c')" and "lossless (id c)"
  then show "lossless (id c') \<and> (isl r \<longrightarrow> c_db (id c') = c_db (id c))"
    using assms(3) by (simp add: clean_def)
qed

section \<open>The operations\<close>

lemma Register_behaves:
  assumes "0 \<le> ag_ReputationScore a" and "ag_ReputationScore a \<le> 1000"
  shows "behaves id isl (Register t1 t2 a)"
proof -
  have "0 \<le> ag_ReputationScore (with_defaults t1 t2 a) \<and> ag_ReputationScore (with_defaults t1 t2 a) \<le> 1000"
    using assms by (simp add: with_defaults_def Let_def)
  then show ?thesis
    unfolding Register_def by (intro behaves_rules behaves_stmt) (auto intro: evolves_insert_agent)
qed

lemma Save_behaves: "behaves id isl (Save uuid_in t now aid a)"
  by (rule behaves_atomic [OF Save_atomic evolves_save])
     (auto simp: Save_def Let_def intro!: clean_if clean_fail clean_with_tx lossless_rules)

lemma Submit_behaves: "behaves id isl (SubmitVerificationResult uuid_in now eid i success)"
  by (rule behaves_atomic [OF SubmitVerificationResult_atomic evolves_submit])
     (auto simp: SubmitVerificationResult_def award_verifier_def penalise_target_def Let_def
        intro!: clean_with_tx lossless_rules)

lemma Forget_behaves: "behaves id isl (Forget now did)"
  by (rule behaves_atomic [OF Forget_atomic])
     (auto simp: Forget_def evolves_forgotten intro!: clean_with_tx lossless_rules)

lemma CreateVerification_behaves: "behaves id isl (CreateVerification now i target verifier)"
  unfolding CreateVerification_def
  by (intro behaves_rules behaves_stmt) (rule evolves_insert_verification)

lemma SavePolicy_behaves: "behaves id isl (SavePolicy now p)"
  unfolding SavePolicy_def by (intro behaves_stmt) (rule evolves_upsert_policy)

lemma pg_Store_behaves: "behaves id isl (pg_Store marshal jsonb m)"
  unfolding pg_Store_def
  by (auto split: sum.splits intro!: behaves_fail behaves_attempt_ret behaves_stmt evolves_insert_memory)

lemma Rectify_behaves: "behaves id isl (Rectify uuid_in jsonb now i x)"
  unfolding Rectify_def
proof (intro behaves_report behaves_stmt evolves_correct)
  fix c n c1
  assume run: "db_stmt (correct_memory uuid_in jsonb now i x) c = (Inr n, c1)"
  have "n = 0 \<Longrightarrow> c_db c1 = c_db c"
    using db_stmt_InrD [OF run]
    by (auto simp: correct_memory_def Let_def count_where_zero_iff set_where_none split: option.splits)
  then show "snd ((if n = 0 then fail (Plain ''memory not found or already deleted'') else ret ()) c1) = c1 \<and>
      (isl (fst ((if n = 0 then fail (Plain ''memory not found or already deleted'') else ret ()) c1)) \<longrightarrow>
         c_db (id c1) = c_db (id c))"
    by (simp add: fail_def ret_def)
qed

text \<open>Operations that only read.\<close>

lemma Get_reading: "reading id (Get did)"
  unfolding Get_def by (intro behaves_attempt reading_db_row behaves_ret)

lemma List_agents_reading: "reading id List_agents"
  unfolding List_agents_def by (intro behaves_attempt reading_select behaves_ret)

lemma ListByMemory_reading: "reading id (ListByMemory uuid_in i)"
  unfolding ListByMemory_def
  by (intro behaves_attempt reading_stmt behaves_ret) (auto simp: select_by_memory_def split: option.splits)

lemma SelectVerifier_reading: "reading id (SelectVerifier rnd target m)"
  unfolding SelectVerifier_def
  by (intro behaves_attempt reading_stmt reading_scan_row behaves_ret) (auto simp: select_verifier_def split: if_splits)

lemma Query_reading: "reading id (Query f)"
  unfolding Query_def by (intro behaves_attempt reading_select behaves_ret)

lemma Export_reading: "reading id (Export scan received did)"
  unfolding Export_def Let_def by (intro behaves_attempt reading_select behaves_ret)

lemma pg_Retrieve_reading: "reading id (pg_Retrieve i)"
  unfolding pg_Retrieve_def by (intro behaves_attempt reading_db_row behaves_ret)

lemma postgres_Ping_reading: "reading id postgres_Ping"
  unfolding postgres_Ping_def by (intro behaves_attempt reading_select behaves_ret)

lemma GetPolicies_reading: "reading id (GetPolicies did)"
  unfolding GetPolicies_def by (intro behaves_attempt reading_select behaves_ret)

lemma Search_reading: "reading id (Search emb cdist tsmatch rank iter query)"
proof -
  have page: "reading id (page_result q xs)" for q and xs
    by (rule reading_same) (auto simp: page_result_run split: option.splits)
  show ?thesis
    unfolding Search_def
    by (cases "if needsSemantic (sq_Types query) then emb (sq_Query query) else Inr []")
       (auto intro!: behaves_fail behaves_attempt reading_stmt page dest: select_semantic_found select_keyword_found)
qed

section \<open>Handlers\<close>

text \<open>The rules for what a handler does before and after it calls an operation.\<close>

lemma behaves_const: "behaves C bad (\<lambda>s. (x, s))"
  by (rule behaves_return) simp

lemma behaves_choice: "(b \<Longrightarrow> behaves C bad f) \<Longrightarrow> (\<not> b \<Longrightarrow> behaves C bad g) \<Longrightarrow>
    behaves C bad (\<lambda>s. if b then f s else g s)"
  by (cases b) simp_all

lemma behaves_option: "(x = None \<Longrightarrow> behaves C bad f) \<Longrightarrow> (\<And>v. x = Some v \<Longrightarrow> behaves C bad (g v)) \<Longrightarrow>
    behaves C bad (\<lambda>s. case x of None \<Rightarrow> f s | Some v \<Rightarrow> g v s)"
  by (cases x) simp_all

lemma behaves_sum: "(\<And>e. x = Inl e \<Longrightarrow> behaves C bad (f e)) \<Longrightarrow> (\<And>v. x = Inr v \<Longrightarrow> behaves C bad (g v)) \<Longrightarrow>
    behaves C bad (\<lambda>s. case x of Inl e \<Rightarrow> f e s | Inr v \<Rightarrow> g v s)"
  by (cases x) simp_all

lemma behaves_pair: "(\<And>a b. x = (a, b) \<Longrightarrow> behaves C bad (f a b)) \<Longrightarrow>
    behaves C bad (\<lambda>s. case x of (a, b) \<Rightarrow> f a b s)"
  by (cases x) simp

lemma behaves_answer:
  assumes "behaves C isl m" and "\<And>v. rp_status (on_value v) < 400"
  shows "behaves C refused (answer m on_error on_value)"
proof -
  have "\<not> refused (on_value v)" for v using assms(2) [of v] by (simp add: refused_def)
  then show ?thesis
    using assms(1) unfolding behaves_def answer_def by (fastforce split: sum.splits prod.splits)
qed

lemma reading_answer: "reading C m \<Longrightarrow> reading C (answer m on_error on_value)"
  unfolding behaves_def answer_def by (fastforce split: sum.splits prod.splits)

lemmas handler_rules = behaves_const behaves_choice behaves_option behaves_sum behaves_pair behaves_answer

lemma behaves_lift: "behaves id bad m \<Longrightarrow> behaves fst bad (lift fst on_conn m)"
  unfolding behaves_def by (fastforce elim!: liftE)

lemma reading_lift_kv: "reading fst (lift snd on_kv m)"
  by (rule reading_same) (auto elim!: liftE)

lemma behaves_focus: "behaves id bad (h r) \<Longrightarrow> behaves fst bad (focus fst on_conn h r)"
proof (unfold behaves_def, intro allI impI)
  fix s resp s'
  assume h: "\<forall>s x s'. h r s = (x, s') \<longrightarrow> evolves (c_db (id s)) (c_db (id s')) \<and>
      (lossless (id s) \<longrightarrow> lossless (id s') \<and> (bad x \<longrightarrow> c_db (id s') = c_db (id s)))"
    and run: "focus fst on_conn h r s = (resp, s')"
  obtain x c where hr: "h r (fst s) = (x, c)" by (rule prod.exhaust)
  then have "x = resp" "fst s' = c" using run by (auto simp: focus_def)
  then show "evolves (c_db (fst s)) (c_db (fst s')) \<and>
      (lossless (fst s) \<longrightarrow> lossless (fst s') \<and> (bad resp \<longrightarrow> c_db (fst s') = c_db (fst s)))"
    using h [rule_format, OF hr] by simp
qed

text \<open>The connection of the whole service.\<close>

definition app_conn :: "'k app \<Rightarrow> conn" where
  "app_conn s = fst (fst s)"

lemma behaves_on_world: "behaves fst bad (h r) \<Longrightarrow> behaves app_conn bad (on_world h r)"
  unfolding behaves_def on_world_def focus_def app_conn_def by (fastforce split: prod.splits)

lemma behaves_on_db: "behaves id bad (h r) \<Longrightarrow> behaves app_conn bad (on_db h r)"
  unfolding on_db_def by (intro behaves_on_world behaves_focus)

lemma behaves_auditMW: "behaves app_conn bad (h r) \<Longrightarrow> behaves app_conn bad (auditMW D h r)"
  unfolding behaves_def auditMW_def AuditMiddleware_def app_conn_def by (fastforce split: prod.splits)

subsection \<open>Evaluation of policies only reads\<close>

lemma evaluator_reading: "reading fst (evaluator L D req)"
proof -
  let ?st = "service_store (dw_t1 D)" and ?ca = "service_cache (lb_client L)"
  have cache: "reading fst (pc_GetPolicies ?ca did)" and set: "reading fst (pc_SetPolicies ?ca did x)" for did x
    by (simp_all add: reading_lift_kv)
  have store: "reading fst (ps_GetPolicies ?st did)" for did
    using behaves_lift [OF GetPolicies_reading] by (simp add: PolicyPostgres_def)
  have keep: "reading fst (\<lambda>s. (x, snd (pc_SetPolicies ?ca did y s)))" for x :: "error + policy_slice" and did y
    using behaves_after [OF set, where k = "\<lambda>_ s. (x, s)"] by (simp add: behaves_const split_def)
  have miss: "reading fst (\<lambda>s. case ps_GetPolicies ?st did s of (Inl e, s2) \<Rightarrow> (Inl (Wrap ''store get'' e), s2)
      | (Inr policies, s2) \<Rightarrow> (Inr policies, snd (pc_SetPolicies ?ca did policies s2)))" for did
    by (intro behaves_after [OF store] behaves_sum behaves_const keep)
  have "reading fst (getPolicies (Some ?ca) ?st did)" for did
    unfolding getPolicies_def [abs_def] option.case
    by (intro behaves_after [OF cache] behaves_sum behaves_option behaves_const miss)
  then show ?thesis
    unfolding evaluator_def policyStore_def Evaluate_def [abs_def]
    by (intro behaves_after behaves_sum behaves_const)
qed

lemma behaves_policyMW:
  assumes "behaves fst refused (h r)"
  shows "behaves fst refused (policyMW L D h r)"
proof -
  have pass: "behaves fst refused (\<lambda>s. if \<not> rs_Allowed result then (Error (''Forbidden: '' @ rs_Reason result) 403, s) else h r s)"
    for result by (intro handler_rules assms)
  show ?thesis
    unfolding policyMW_def PolicyMiddleware_def [abs_def]
    by (intro behaves_choice behaves_const behaves_after [OF evaluator_reading] behaves_pair behaves_option pass assms)
qed

section \<open>Endpoints\<close>

lemma StoreMemory_behaves: "behaves fst refused (StoreMemory decode (memRouter L D) marshal i t1 t2 r)"
proof -
  have "behaves fst isl (rt_Store (memRouter L D) m)" for m
  proof (cases "Validate (m_Type m)")
    case (Inl e)
    then show ?thesis by (simp add: rt_Store_def [abs_def] behaves_fail)
  next
    case (Inr u)
    then have "rt_Store (memRouter L D) m =
        (if m_Type m = Working then lift snd on_kv (ms_Store (vkStore L D) m)
         else lift fst on_conn (pg_Store (lb_marshal L) (lb_jsonb L) m))"
      by (simp add: rt_Store_def fun_eq_iff backend_def memRouter_def service_router_def pgStore_def PostgresStore_def)
    then show ?thesis by (simp add: behaves_lift pg_Store_behaves reading_behaves reading_lift_kv)
  qed
  then have "behaves fst isl (StoreWithVerification (memRouter L D) marshal i t1 t2 req sig)" for req sig
    unfolding StoreWithVerification_def memRouter_def service_router_def
    by (simp add: Let_def) (intro behaves_attempt behaves_attempt_ret behaves_ret)
  then show ?thesis
    unfolding StoreMemory_def [abs_def]
    by (intro handler_rules) (simp_all add: Reply_def)
qed

lemma SearchMemory_reading: "reading fst (SearchMemory decode (memRouter L D) r)"
proof -
  have "reading fst (rt_Search (memRouter L D) q)" for q
    using behaves_lift [OF Search_reading] reading_lift_kv
    by (auto simp: rt_Search_def gather_def memRouter_def service_router_def pgStore_def vkStore_def searcher_def
        PostgresStore_def ValkeyStore_def pg_Search_def intro!: behaves_attempt behaves_ret)
  then show ?thesis
    unfolding SearchMemory_def [abs_def] by (intro behaves_option behaves_const reading_answer)
qed

lemma Register_handler_behaves: "behaves id refused (RegisterAgentHandler db decode enc dec keys t1 t2 r)"
  unfolding RegisterAgentHandler_def [abs_def]
  by (intro handler_rules Register_behaves) (simp_all add: new_agent_def Reply_def)

lemma HealthHandler_reading:
  assumes "\<And>p. pg = Some p \<Longrightarrow> reading C p" and "\<And>p. vk = Some p \<Longrightarrow> reading C p"
  shows "reading C (HealthHandler pg vk r)"
  unfolding HealthHandler_def [abs_def] Let_def
  by (intro behaves_after behaves_option behaves_sum behaves_const assms)

lemma mcp_tool_reading: "reading app_conn (mcp_tool L D arg)"
proof -
  have h: "reading id (handleMemoryRetrieve (lb_uuid_parse L) (pgStore L D) arg)"
    unfolding handleMemoryRetrieve_def [abs_def]
    by (intro behaves_option behaves_const behaves_after behaves_sum)
       (simp add: pgStore_def PostgresStore_def pg_Retrieve_reading)
  show ?thesis
  proof (unfold behaves_def, intro allI impI)
    fix s :: "'a app" and x s'
    assume run: "mcp_tool L D arg s = (x, s')"
    obtain y c where tool: "handleMemoryRetrieve (lb_uuid_parse L) (pgStore L D) arg (app_conn s) = (y, c)"
      by (rule prod.exhaust)
    then have "app_conn s' = c" using run by (auto simp: mcp_tool_def app_conn_def)
    then show "evolves (c_db (app_conn s)) (c_db (app_conn s')) \<and>
        (lossless (app_conn s) \<longrightarrow> lossless (app_conn s') \<and> (True \<longrightarrow> c_db (app_conn s') = c_db (app_conn s)))"
      using behavesD [OF h tool] by simp
  qed
qed

text \<open>
  The MCP library runs the tools it was given and does nothing else to the state: what every
  tool keeps, it keeps.
\<close>

definition only_calls :: "(('a \<Rightarrow> 's \<Rightarrow> 'b \<times> 's) \<Rightarrow> ('s, 'j) handler) \<Rightarrow> bool" where
  "only_calls serve \<longleftrightarrow>
     (\<forall>J tool r s. (\<forall>arg s. J s \<longrightarrow> J (snd (tool arg s))) \<longrightarrow> J s \<longrightarrow> J (snd (serve tool r s)))"

lemma only_calls_reading:
  assumes serve: "only_calls serve" and tool: "\<And>arg. reading C (tool arg)"
  shows "reading C (serve tool r)"
  unfolding behaves_def
proof (intro allI impI)
  fix s x s'
  assume run: "serve tool r s = (x, s')"
  define J where "J = (\<lambda>t. evolves (c_db (C s)) (c_db (C t)) \<and>
    (lossless (C s) \<longrightarrow> lossless (C t) \<and> c_db (C t) = c_db (C s)))"
  have "J (snd (tool arg t))" if "J t" for arg t
    using that behavesD [OF tool, of arg t "fst (tool arg t)" "snd (tool arg t)"] evolves_trans
    by (auto simp: J_def)
  moreover have "J s" by (simp add: J_def)
  ultimately have "J (snd (serve tool r s))" by (rule serve [unfolded only_calls_def, rule_format])
  then show "evolves (c_db (C s)) (c_db (C s')) \<and>
      (lossless (C s) \<longrightarrow> lossless (C s') \<and> (True \<longrightarrow> c_db (C s') = c_db (C s)))"
    by (simp add: run J_def)
qed

definition reads_only :: "endpoint set" where
  "reads_only = {GetHealth, GetAgents, GetAgent, GetAttestations, PostSearch, PostEvaluate, GetAudit, GetExport, McpSSE, McpMessage}"

lemma endpoint_reading:
  assumes mcp: "only_calls (lb_mcp L)" and e: "e \<in> reads_only"
  shows "reading app_conn (endpoint_handler L D H e r)"
proof -
  have get: "reading id (ListAgentsHandler p r)" "reading id (GetAgentHandler p r)" "reading id (ListAttestationsHandler p u r)"
    "reading id (QueryAudit pt r)" "reading id (ExportData d sc rc r)" for p u pt d sc rc r
    unfolding ListAgentsHandler_def [abs_def] GetAgentHandler_def [abs_def] ListAttestationsHandler_def [abs_def]
      QueryAudit_def [abs_def] ExportData_def [abs_def] Let_def
    by (intro reading_answer behaves_choice behaves_option behaves_const List_agents_reading Get_reading
        ListByMemory_reading Query_reading Export_reading)+
  have health: "reading fst (HealthHandler p v r)"
    if "p \<in> {None, Some (lift fst on_conn postgres_Ping)}" "v \<in> {None, Some (lift snd on_kv (valkey_Ping (lb_client L)))}" for p v
    using that by (intro HealthHandler_reading) (auto intro: behaves_lift postgres_Ping_reading reading_lift_kv)
  have evaluate: "reading fst (EvaluatePolicy d (evaluator L D) r)" for d
    unfolding EvaluatePolicy_def [abs_def]
    by (intro behaves_option behaves_choice behaves_const behaves_after [OF evaluator_reading] behaves_pair)
  have search: "reading fst (policyMW L D (SearchMemory d (memRouter L D)) r)" for d
    unfolding policyMW_def PolicyMiddleware_def [abs_def]
    by (intro behaves_choice behaves_const behaves_after [OF evaluator_reading] behaves_pair behaves_option SearchMemory_reading)
  show ?thesis
    using e only_calls_reading [OF mcp mcp_tool_reading]
    by (auto simp: reads_only_def intro!: behaves_auditMW behaves_on_db behaves_on_world get health evaluate search)
qed

lemma endpoint_behaves:
  assumes mcp: "only_calls (lb_mcp L)"
  shows "behaves app_conn refused (endpoint_handler L D H e r)"
proof (cases "e \<in> reads_only")
  case True
  show ?thesis by (rule reading_behaves [OF endpoint_reading [OF mcp True]])
next
  case False
  have attest: "behaves id refused (CreateAttestationHandler p d b64 u t now i r)" for p d b64 u t now i
    unfolding CreateAttestationHandler_def [abs_def]
    by (intro handler_rules Save_behaves) (simp add: Reply_def)
  have verify: "behaves id refused (CreateVerificationHandler p d rnd t i r)" for p d rnd t i
    unfolding CreateVerificationHandler_def [abs_def]
    by (intro behaves_after [OF SelectVerifier_reading] handler_rules CreateVerification_behaves) (simp add: Reply_def)
  have submit: "behaves id refused (SubmitVerificationResultHandler p d u t i r)" for p d u t i
    unfolding SubmitVerificationResultHandler_def [abs_def] Let_def
    by (intro handler_rules Submit_behaves) (simp add: Reply_def)
  have policy: "behaves fst refused (CreatePolicy d (policyStore D) r)" for d
    unfolding CreatePolicy_def [abs_def] policyStore_def
    by (intro handler_rules) (simp_all add: Reply_def PolicyPostgres_def behaves_lift SavePolicy_behaves)
  have forget: "behaves id refused (RightToForget d t r)" for d t
    unfolding RightToForget_def [abs_def]
    by (intro handler_rules Forget_behaves) simp
  have rectify: "behaves id refused (RectifyData d u j t r)" for d u j t
    unfolding RectifyData_def [abs_def]
    by (intro handler_rules Rectify_behaves) (simp add: Reply_def)
  show ?thesis
    using False
    by (cases e) (auto simp: reads_only_def intro!: behaves_auditMW behaves_on_db behaves_on_world behaves_policyMW
        Register_handler_behaves StoreMemory_behaves attest verify submit policy forget rectify)
qed

lemma ServeHTTP_behaves:
  assumes mcp: "only_calls (lb_mcp L)"
  shows "behaves app_conn refused (ServeHTTP L D H r)"
  unfolding ServeHTTP_def [abs_def]
  by (intro behaves_option behaves_pair behaves_const endpoint_behaves [OF mcp])

text \<open>What a method asking to read can reach.\<close>

lemma route_in: "route H method path = Some (m, p, e) \<Longrightarrow> (m, p, e) \<in> set (RegisterRoutes H) \<and> method_matches m method"
  unfolding route_def path_routes_def by (auto simp: find_Some_iff in_set_conv_nth dest: nth_mem)

lemma route_reads:
  assumes "route H method path = Some (m, p, e)" and "method \<in> {''GET'', ''HEAD''}"
  shows "e \<in> reads_only"
  using route_in [OF assms(1)] assms(2)
  by (auto simp: RegisterRoutes_def base_routes_def engine_routes_def method_matches_def reads_only_def split: if_splits)

lemma ServeHTTP_reads:
  assumes mcp: "only_calls (lb_mcp L)" and "hr_Method r \<in> {''GET'', ''HEAD''}"
  shows "reading app_conn (ServeHTTP L D H r)"
proof (cases "route H (hr_Method r) (hr_Path r)")
  case None
  then show ?thesis unfolding ServeHTTP_def [abs_def] by (simp add: behaves_const)
next
  case (Some t)
  obtain m p e where t: "t = (m, p, e)" by (cases t)
  have "e \<in> reads_only" using route_reads assms(2) Some t by blast
  then show ?thesis using endpoint_reading [OF mcp] Some t by (simp add: ServeHTTP_def [abs_def])
qed

section \<open>Runs\<close>

text \<open>
  A step is a whole request, the end of one audit goroutine or the reading of one of its errors, or
  any change of Valkey (expiry, eviction, other clients). Each call of a request meets the outcome
  that the connection has in store for it.
\<close>

inductive service_step :: "'k libs \<Rightarrow> handles \<Rightarrow> 'k app \<Rightarrow> 'k app \<Rightarrow> bool" for L H where
  request: "ServeHTTP L D H r s = (resp, s') \<Longrightarrow> service_step L H s s'"
| logging: "log_step (c, l) a (c', l') \<Longrightarrow> service_step L H ((c, k), l) ((c', k), l')"
| valkey: "service_step L H (w, l) (on_kv k w, l)"

lemma log_step_evolves:
  assumes "log_step (c, l) a (c', l')"
  shows "evolves (c_db c) (c_db c')"
  using assms
proof (cases rule: log_step.cases)
  case (finish e i ts)
  obtain q c1 where q: "db_stmt (insert_audit i ts e) c = (q, c1)" by (rule prod.exhaust)
  then have "c' = c1" using finish by (auto simp: log_body_def split: sum.splits)
  then show ?thesis using behavesD(1) [OF behaves_stmt [OF evolves_insert_audit] q] by simp
qed simp_all

lemma step_evolves:
  assumes mcp: "only_calls (lb_mcp L)" and step: "service_step L H s s'"
  shows "evolves (c_db (app_conn s)) (c_db (app_conn s'))"
  using step
proof (cases rule: service_step.cases)
  case (request D r resp)
  then show ?thesis using behavesD(1) [OF ServeHTTP_behaves [OF mcp] request] by simp
next
  case (logging c l a c' l' k)
  then show ?thesis using log_step_evolves by (simp add: app_conn_def)
next
  case (valkey w l k)
  then show ?thesis by (simp add: app_conn_def)
qed

lemma run_evolves:
  assumes mcp: "only_calls (lb_mcp L)" and run: "(service_step L H)\<^sup>*\<^sup>* s s'"
  shows "evolves (c_db (app_conn s)) (c_db (app_conn s'))"
  using run by (induction rule: rtranclp_induct) (auto intro: evolves_trans step_evolves [OF mcp])

section \<open>Properties\<close>

definition sample_libs :: "server libs" where
  "sample_libs = \<lparr>lb_client = reference_server (\<lambda>_ _. True), lb_fold = (=), lb_encode58 = b58_encode, lb_decode58 = b58_decode,
     lb_base64 = Some, lb_uuid_in = Some, lb_uuid_parse = Some, lb_marshal = Inr, lb_jsonb = Some, lb_jtext = (\<lambda>_. []),
     lb_time = (\<lambda>_. None), lb_cdist = (\<lambda>_ _. None), lb_tsmatch = (\<lambda>_ _. True), lb_rank = (\<lambda>_ _. 1),
     lb_decode = \<lparr>de_store = (\<lambda>_. None), de_search = (\<lambda>_. None), de_policy = (\<lambda>_. None), de_request = (\<lambda>_. None),
       de_key = Some, de_attestation = (\<lambda>_. None), de_target = Some, de_success = (\<lambda>_. Some True), de_forget = (\<lambda>_. None),
       de_agent = Some, de_correction = (\<lambda>_. None)\<rparr>,
     lb_mcp = (\<lambda>tool r s. case tool (Some (hr_Body r)) s of (x, s') \<Rightarrow> (Reply 200 JSuccess, s'))\<rparr>"

definition sample_draws :: draws where
  "sample_draws = \<lparr>dw_t1 = 5, dw_t2 = 6, dw_id = ''i1'', dw_keys = Inr (''pub'', ''priv''), dw_random = (\<lambda>_. 0), dw_scan = id,
     dw_received = None, dw_iter = id, dw_fuel = 1, dw_ms = 3\<rparr>"

definition both :: handles where
  "both = \<lparr>hn_pg = True, hn_vk = True\<rparr>"

definition sample_app :: "db \<Rightarrow> server app" where
  "sample_app d = ((sample_conn d, empty_server), NewLogger)"

lemma sample_only_calls: "only_calls (lb_mcp sample_libs)"
  by (simp add: only_calls_def sample_libs_def split: prod.splits)
     (metis snd_conv)

text \<open>A registration on an empty database, evaluated.\<close>

lemma sample_register:
  "\<exists>a. ag_ReputationScore a = 500 \<and> ServeHTTP sample_libs sample_draws both (sample_http ''POST'' ''/api/trust/agents'' []) (sample_app empty_db) =
     (Reply 201 (JKeys (GenerateDID b58_encode ''pub'') (b58_encode ''pub'') (Some (b58_encode ''priv''))), sample_app (empty_db\<lparr>t_agents := [a]\<rparr>))"
proof -
  define a where "a = with_defaults 5 6 (new_agent b58_encode ''pub'')"
  have "Register 5 6 (new_agent b58_encode ''pub'') (sample_conn empty_db) = (Inr (), sample_conn (empty_db\<lparr>t_agents := [a]\<rparr>))"
    by (simp add: Register_def a_def insert_agent_def with_defaults_def new_agent_def GenerateDID_def did_prefix_def
        attempt_def ret_def int4_def has_agent_def empty_db_def sample_conn_def db_stmt_def next_outcome_def Let_def)
  moreover have "ag_ReputationScore a = 500" by (simp add: a_def with_defaults_def new_agent_def Let_def)
  ultimately show ?thesis
    by (intro exI [of _ a])
       (simp add: ServeHTTP_def route_def path_routes_def RegisterRoutes_def base_routes_def engine_routes_def path_segments_def
        sample_http_def method_matches_def with_values_def on_db_def on_world_def focus_def RegisterAgentHandler_def
        sample_libs_def sample_draws_def both_def sample_app_def GenerateKeypair_def answer_def on_conn_def)
qed

lemma sample_run:
  "(service_step L H)\<^sup>*\<^sup>* s (snd (ServeHTTP L D H r s))"
  by (rule r_into_rtranclp) (rule service_step.request [OF surjective_pairing])

lemma sample_app_conn [simp]: "c_db (app_conn (sample_app d)) = d"
  by (simp add: app_conn_def sample_app_def sample_conn_def)

text \<open>
  C2: the service keeps its schema. In every state that any sequence of requests, audit goroutines
  and changes of Valkey reaches, whatever calls fail or lose their reply on the way, the primary
  keys, the foreign keys and the column types hold and every score is within 0..1000, if they did
  at the start. (The MCP library is assumed to change the state only through the tool.)
\<close>

theorem service_keeps_schema:
  assumes mcp: "only_calls (lb_mcp L)" and run: "(service_step L H)\<^sup>*\<^sup>* s s'"
    and start: "db_ok (c_db (app_conn s))" "scores_ok (c_db (app_conn s))"
  shows "db_ok (c_db (app_conn s')) \<and> scores_ok (c_db (app_conn s'))"
  using run_evolves [OF mcp run] start by (simp add: evolves_def sound_def)

theorem service_keeps_schema_witness:
  "\<exists>d. c_db (app_conn (snd (ServeHTTP sample_libs sample_draws both (sample_http ''POST'' ''/api/trust/agents'' []) (sample_app empty_db)))) = d \<and>
     map ag_ReputationScore (t_agents d) = [500] \<and> db_ok d \<and> scores_ok d"
proof -
  let ?s' = "snd (ServeHTTP sample_libs sample_draws both (sample_http ''POST'' ''/api/trust/agents'' []) (sample_app empty_db))"
  have ok: "db_ok (c_db (app_conn ?s')) \<and> scores_ok (c_db (app_conn ?s'))"
    by (rule service_keeps_schema [OF sample_only_calls sample_run])
       (simp_all add: empty_db_ok, simp add: scores_ok_def empty_db_def)
  have "map ag_ReputationScore (t_agents (c_db (app_conn ?s'))) = [500]"
  proof -
    obtain a where a: "ag_ReputationScore a = 500" and s': "?s' = sample_app (empty_db\<lparr>t_agents := [a]\<rparr>)"
      using sample_register by (metis snd_conv)
    show ?thesis unfolding s' sample_app_conn by (simp add: a)
  qed
  with ok show ?thesis by (intro exI [of _ "c_db (app_conn ?s')"] conjI) (rule refl, assumption, (elim conjE, assumption)+)
qed





end
