(* ===== verification/Startup.thy ===== *)
theory Startup
  imports Service
begin

text \<open>
  \<open>cmd/acumius/main.go\<close>: from the configuration to the exit code. What the drivers say, whether a
  signal or the end of the listener comes first, and how the shutdown goes are arguments. The
  listener runs in its own goroutine; its message is put first of those that follow.
\<close>

section \<open>The process\<close>

text \<open>\<open>Ended None\<close> is \<open>http.ErrServerClosed\<close>: the channel is closed without an error.\<close>

datatype event = Signalled | Ended "error option"

record Server =
  Addr :: string
  sv_ReadHeaderTimeout :: int
  sv_ReadTimeout :: int
  sv_WriteTimeout :: int
  sv_IdleTimeout :: int
  sv_Handler :: handles

text \<open>What the process did: its server, whose handler is \<open>ServeHTTP\<close> for the handles, its messages, and its end.\<close>

record run =
  rn_server :: "Server option"
  rn_log :: "(string \<times> error option) list"
  rn_closed :: "string list"
  rn_code :: int

text \<open>\<open>os.Exit\<close> does not run the deferred calls that close the handles.\<close>

definition wait :: "event \<Rightarrow> error option \<Rightarrow> (string \<times> error option) list \<times> bool \<times> int" where
  "wait ev shutdown =
     (case ev of
        Ended (Some err) \<Rightarrow> ([(''server failed'', Some err)], False, 1)
      | Ended None \<Rightarrow> ([], True, 0)
      | Signalled \<Rightarrow>
          (case shutdown of
             Some err \<Rightarrow> ([(''shutdown signal received'', None), (''graceful shutdown failed'', Some err)], False, 1)
           | None \<Rightarrow> ([(''shutdown signal received'', None), (''server stopped'', None)], True, 0)))"

text \<open>\<open>str\<close> and \<open>duration\<close> are the environment, as in \<open>Load\<close>, whose failure ends the process there.\<close>

definition main ::
  "(string \<Rightarrow> string \<Rightarrow> string option) \<Rightarrow> (string \<Rightarrow> string \<Rightarrow> int option) \<Rightarrow>
   (string \<Rightarrow> error + 'p) \<Rightarrow> (string list \<Rightarrow> error + 'v) \<Rightarrow> event \<Rightarrow> error option \<Rightarrow> run" where
  "main str duration open_db new_client ev shutdown =
     (case Load str duration of
        None \<Rightarrow> \<lparr>rn_server = None, rn_log = [(''failed to load config'', None)], rn_closed = [], rn_code = 1\<rparr>
      | Some cfg \<Rightarrow>
          let (pg, log1) = (case NewPostgresStore open_db (DatabaseURL cfg) of
                 Inl err \<Rightarrow> (False, [(''failed to connect to postgres'', Some err)]) | Inr _ \<Rightarrow> (True, []));
              (vk, log2) = (case NewValkeyStore new_client (ValkeyURL cfg) of
                 Inl err \<Rightarrow> (False, [(''failed to connect to valkey'', Some err)]) | Inr _ \<Rightarrow> (True, []));
              server = \<lparr>Addr = '':'' @ ServerPort cfg, sv_ReadHeaderTimeout = ReadHeaderTimeout cfg,
                sv_ReadTimeout = ReadTimeout cfg, sv_WriteTimeout = WriteTimeout cfg, sv_IdleTimeout = IdleTimeout cfg,
                sv_Handler = \<lparr>hn_pg = pg, hn_vk = vk\<rparr>\<rparr>;
              (log3, returns, code) = wait ev shutdown
          in \<lparr>rn_server = Some server,
              rn_log = log1 @ log2 @ [(''server listening'', None)] @ log3,
              rn_closed = (if returns then (if vk then [''valkey''] else []) @ (if pg then [''postgres''] else []) else []),
              rn_code = code\<rparr>)"

text \<open>Exit code 0: exactly the handles that were opened have been closed, and nothing failed on the way out.\<close>

lemma main_closes:
  assumes "rn_code (main str duration open_db new_client ev shutdown) = 0"
  shows "\<exists>server. rn_server (main str duration open_db new_client ev shutdown) = Some server \<and>
      (''postgres'' \<in> set (rn_closed (main str duration open_db new_client ev shutdown)) \<longleftrightarrow> hn_pg (sv_Handler server)) \<and>
      (''valkey'' \<in> set (rn_closed (main str duration open_db new_client ev shutdown)) \<longleftrightarrow> hn_vk (sv_Handler server))"
  using assms
  by (auto simp: main_def wait_def Let_def split: option.splits event.splits sum.splits)

text \<open>With a configuration the service starts whatever connection fails, and passes the missing handle on.\<close>

lemma main_starts:
  assumes "Load str duration = Some cfg"
  shows "\<exists>server. rn_server (main str duration open_db new_client ev shutdown) = Some server \<and>
     Addr server = '':'' @ ServerPort cfg \<and>
     hn_pg (sv_Handler server) = (\<exists>p. open_db (DatabaseURL cfg) = Inr p) \<and>
     hn_vk (sv_Handler server) = (\<exists>v. new_client [valkey_address (ValkeyURL cfg)] = Inr v) \<and>
     (''server listening'', None) \<in> set (rn_log (main str duration open_db new_client ev shutdown))"
  using assms by (auto simp: main_def NewPostgresStore_def NewValkeyStore_def Let_def split: sum.splits prod.splits)

section \<open>A service without a database\<close>

lemma base_endpoint:
  assumes "\<not> hn_pg H \<or> \<not> hn_vk H" and "route H method path = Some (m, p, e)"
  shows "(m, p, e) \<in> set base_routes"
  using route_in [OF assms(2)] assms(1) by (auto simp: RegisterRoutes_def)

lemma without_postgres:
  assumes pg: "\<not> hn_pg H" and run: "ServeHTTP L D H r s = (resp, s')"
  shows "rp_status resp \<in> {0, 200, 400, 404, 405} \<and> (rp_status resp = 200 \<longrightarrow> (\<exists>v. rp_body resp = Json (JHealth False v))) \<and>
    app_conn s' = app_conn s"
proof (cases "route H (hr_Method r) (hr_Path r)")
  case None
  then show ?thesis using run by (auto simp: ServeHTTP_def Error_def split: if_splits)
next
  case (Some t)
  obtain m p e where t: "t = (m, p, e)" by (cases t)
  have e: "endpoint_handler L D H e (with_values p r) s = (resp, s')" using run Some t by (simp add: ServeHTTP_def)
  have "(m, p, e) \<in> set base_routes" using base_endpoint pg Some t by blast
  then consider "e = GetHealth" | "e \<in> {PostAgent, GetAgents, GetAgent, PostAttestation, GetAttestations, PostVerification, PostResult}"
    by (auto simp: base_routes_def)
  then show ?thesis
  proof cases
    case 1
    then show ?thesis
      using e pg by (auto simp: on_world_def focus_def HealthHandler_def Reply_def app_conn_def lift_def on_kv_def
          split: prod.splits sum.splits if_splits)
  next
    case 2
    then show ?thesis
      using e pg
      by (auto simp: on_db_def on_world_def focus_def app_conn_def RegisterAgentHandler_def ListAgentsHandler_def
          GetAgentHandler_def CreateAttestationHandler_def ListAttestationsHandler_def CreateVerificationHandler_def
          SubmitVerificationResultHandler_def aborted_def bad_request_def Error_def Let_def on_conn_def
          split: option.splits if_splits)
  qed
qed

end
