(* ===== verification/Trust_Scripts.thy ===== *)
theory Trust_Scripts
  imports Trust_Verification
begin

text \<open>
  The transactions of \<open>internal/trust\<close> that move a score, statement by statement: what each statement
  changes, the rows that it locks, and how the code goes on. With every call served, running a
  script alone is the code's transaction; failing calls are the subject of the theories of the
  components.
\<close>

section \<open>Transactions as scripts\<close>

text \<open>
  The rows that a statement locks by changing them. Reads take no locks, and the lock of a foreign
  key on the agent does not conflict with a change of its score.
\<close>

datatype row =
    AgentRow string | VerificationRow uuid | EventRow uuid | AttestationRow uuid | MemoryRow uuid | PolicyRow string

text \<open>
  A script ends with an error or without one, or executes a statement: from the database that it
  sees, the change, the rows it changes, and how the script goes on.
\<close>

datatype script =
    Return "error option"
  | Stmt "db \<Rightarrow> db \<Rightarrow> db" "db \<Rightarrow> row set" "db \<Rightarrow> script"

definition applied :: "'a sql \<Rightarrow> db \<Rightarrow> db" where
  "applied f d = (case f d of Inl _ \<Rightarrow> d | Inr (_, d') \<Rightarrow> d')"

definition stmt :: "row set \<Rightarrow> 'a sql \<Rightarrow> (error \<Rightarrow> error) \<Rightarrow> ('a \<Rightarrow> script) \<Rightarrow> script" where
  "stmt rows f w k =
     Stmt (\<lambda>v. case f v of Inl _ \<Rightarrow> id | Inr _ \<Rightarrow> applied f) (\<lambda>_. rows)
       (\<lambda>v. case f v of Inl e \<Rightarrow> Return (Some (w e)) | Inr (x, _) \<Rightarrow> k x)"

definition query :: "(db \<Rightarrow> 'a) \<Rightarrow> ('a \<Rightarrow> script) \<Rightarrow> script" where
  "query q k = Stmt (\<lambda>_. id) (\<lambda>_. {}) (\<lambda>v. k (q v))"

text \<open>The three transactions, in the order in which the code sends their statements.\<close>

definition log_event_script :: "time \<Rightarrow> uuid \<Rightarrow> string \<Rightarrow> string \<Rightarrow> int \<Rightarrow> script" where
  "log_event_script now eid did ty change =
     stmt {EventRow eid} (insert_event (event_row now eid did ty change)) (Wrap ''failed to log event'') (\<lambda>_.
     query (select_score did) (\<lambda>score. case score of
       None \<Rightarrow> Return (Some (Wrap ''failed to get agent score'' ErrNoRows))
     | Some currentScore \<Rightarrow>
         stmt {AgentRow did} (set_reputation (clamp_score (add64 currentScore change)) (Some now) did)
           (Wrap ''failed to update agent reputation'') (\<lambda>_. Return None)))"

definition save_script :: "(string \<Rightarrow> uuid option) \<Rightarrow> time \<Rightarrow> time \<Rightarrow> uuid \<Rightarrow> Attestation \<Rightarrow> script" where
  "save_script uuid_in t now aid a =
     (if at_MemoryID a = [] then Return (Some (Plain ''memory ID cannot be empty''))
      else if at_AgentDID a = [] then Return (Some (Plain ''agent DID cannot be empty''))
      else if length (at_Signature a) = 0 then Return (Some (Plain ''signature cannot be empty''))
      else
     stmt {AttestationRow aid} (insert_attestation uuid_in aid (stamped t a)) (Wrap ''failed to insert attestation'') (\<lambda>_.
     query (select_score (at_AgentDID a)) (\<lambda>score. case score of
       None \<Rightarrow> Return (Some (Wrap ''failed to get agent score'' ErrNoRows))
     | Some currentScore \<Rightarrow>
         stmt {AgentRow (at_AgentDID a)}
           (set_reputation (min 1000 (add64 currentScore 25)) (Some now) (at_AgentDID a))
           (Wrap ''failed to update agent reputation'') (\<lambda>_. Return None))))"

definition award_script :: "time \<Rightarrow> string \<Rightarrow> script" where
  "award_script now did =
     query (select_score did) (\<lambda>score. case score of
       None \<Rightarrow> Return None
     | Some n \<Rightarrow>
         stmt {AgentRow did} (set_reputation (min 1000 (add64 n 50)) (Some now) did)
           (Wrap ''failed to update verifier reputation'') (\<lambda>_. Return None))"

definition penalty_script :: "time \<Rightarrow> uuid \<Rightarrow> string \<Rightarrow> script" where
  "penalty_script now eid did =
     query (select_score did) (\<lambda>score. case score of
       None \<Rightarrow> Return None
     | Some n \<Rightarrow>
         stmt {AgentRow did} (set_reputation (max 0 (sub64 n 100)) (Some now) did)
           (Wrap ''failed to update target reputation'') (\<lambda>_.
         stmt {EventRow eid} (insert_event (event_row now eid did ''policy_violation'' (- 100)))
           (Wrap ''failed to log policy violation event'') (\<lambda>_. Return None)))"

definition fetch_error :: "error \<Rightarrow> error" where
  "fetch_error err = (if errors_Is err ErrNoRows then Plain ''verification not found''
                      else Wrap ''failed to fetch verification'' err)"

definition submit_script :: "(string \<Rightarrow> uuid option) \<Rightarrow> time \<Rightarrow> uuid \<Rightarrow> string \<Rightarrow> bool \<Rightarrow> script" where
  "submit_script uuid_in now eid i success =
     stmt {} (select_verification uuid_in i) fetch_error (\<lambda>r. case r of
       None \<Rightarrow> Return (Some (fetch_error ErrNoRows))
     | Some v \<Rightarrow>
         if vf_Status v \<noteq> ''pending'' then Return (Some (Plain (''verification is already in status: '' @ vf_Status v)))
         else
         stmt {VerificationRow (vf_ID v)} (set_status uuid_in (if success then ''completed'' else ''failed'') i)
           (Wrap ''failed to update verification status'') (\<lambda>_.
         if success then award_script now (vf_VerifierDID v) else penalty_script now eid (vf_TargetDID v)))"

section \<open>Alone, a script is the code's transaction\<close>

primrec run_script :: "script \<Rightarrow> db \<Rightarrow> db \<Rightarrow> error option \<times> db" where
  "run_script (Return r) d0 d = (r, case r of None \<Rightarrow> d | Some _ \<Rightarrow> d0)"
| "run_script (Stmt e l k) d0 d = run_script (k d) d0 (e d d)"

definition error_of :: "error + 'a \<Rightarrow> error option" where
  "error_of r = (case r of Inl e \<Rightarrow> Some e | Inr _ \<Rightarrow> None)"

text \<open>\<open>m\<close>, within a transaction that began in \<open>d0\<close> and in which every call is served, does what the script does.\<close>

definition tracks :: "(conn, 'a) proc \<Rightarrow> script \<Rightarrow> bool" where
  "tracks m s \<longleftrightarrow>
     (\<forall>c d0 r c'. calm c \<longrightarrow> m c = (r, c') \<longrightarrow>
        c_outcomes c' = [] \<and> (isl r \<or> \<not> c_aborted c') \<and>
        run_script s d0 (c_db c) = (error_of r, if isl r then d0 else c_db c'))"

lemma run_stmt [simp]:
  "run_script (stmt rows f w k) d0 d =
     (case f d of Inl e \<Rightarrow> (Some (w e), d0) | Inr (x, d') \<Rightarrow> run_script (k x) d0 d')"
  by (auto simp: stmt_def applied_def split: sum.splits)

lemma run_query [simp]: "run_script (query q k) d0 d = run_script (k (q d)) d0 d"
  by (simp add: query_def)

lemma tracks_ret: "tracks (ret v) (Return None)"
  by (auto simp: tracks_def ret_def error_of_def calm_def)

lemma tracks_fail: "tracks (fail e) (Return (Some e))"
  by (auto simp: tracks_def fail_def error_of_def calm_def)

lemma tracks_if: "(b \<Longrightarrow> tracks m s) \<Longrightarrow> (\<not> b \<Longrightarrow> tracks n t) \<Longrightarrow> tracks (if b then m else n) (if b then s else t)"
  by simp

lemma tracks_stmt:
  assumes "\<And>x. tracks (k x) (k' x)"
  shows "tracks (attempt (tx_stmt f) w k) (stmt rows f w k')"
  unfolding tracks_def
proof (intro allI impI)
  fix c d0 r c'
  assume c: "calm c" and run: "attempt (tx_stmt f) w k c = (r, c')"
  show "c_outcomes c' = [] \<and> (isl r \<or> \<not> c_aborted c') \<and>
      run_script (stmt rows f w k') d0 (c_db c) = (error_of r, if isl r then d0 else c_db c')"
  proof (cases "f (c_db c)")
    case (Inl e)
    then show ?thesis using run c by (auto simp: attempt_def error_of_def calm_def)
  next
    case (Inr p)
    obtain x d where p: "p = (x, d)" by (cases p)
    then have "k x (c\<lparr>c_db := d\<rparr>) = (r, c')" using run c Inr by (simp add: attempt_def)
    moreover have "calm (c\<lparr>c_db := d\<rparr>)" using c by simp
    ultimately show ?thesis using assms [of x] Inr p unfolding tracks_def by fastforce
  qed
qed

lemma tracks_row:
  assumes "\<And>x. tracks (k x) (k' x)"
  shows "tracks (attempt (tx_row q) w k)
    (query q (\<lambda>r. case r of None \<Rightarrow> Return (Some (w ErrNoRows)) | Some x \<Rightarrow> k' x))"
  unfolding tracks_def
proof (intro allI impI)
  fix c d0 r c'
  assume c: "calm c" and run: "attempt (tx_row q) w k c = (r, c')"
  show "c_outcomes c' = [] \<and> (isl r \<or> \<not> c_aborted c') \<and>
      run_script (query q (\<lambda>r. case r of None \<Rightarrow> Return (Some (w ErrNoRows)) | Some x \<Rightarrow> k' x)) d0 (c_db c) =
        (error_of r, if isl r then d0 else c_db c')"
  proof (cases "q (c_db c)")
    case None
    then show ?thesis using run c by (auto simp: attempt_def error_of_def calm_def)
  next
    case (Some x)
    then have "k x c = (r, c')" using run c by (simp add: attempt_def)
    then show ?thesis using assms [of x] c Some unfolding tracks_def by fastforce
  qed
qed

lemma tracks_row_or:
  assumes "\<And>x. tracks (k x) (k' x)"
  shows "tracks (attempt_or (tx_row q) k (\<lambda>_. ret ())) (query q (\<lambda>r. case r of None \<Rightarrow> Return None | Some x \<Rightarrow> k' x))"
  unfolding tracks_def
proof (intro allI impI)
  fix c d0 r c'
  assume c: "calm c" and run: "attempt_or (tx_row q) k (\<lambda>_. ret ()) c = (r, c')"
  show "c_outcomes c' = [] \<and> (isl r \<or> \<not> c_aborted c') \<and>
      run_script (query q (\<lambda>r. case r of None \<Rightarrow> Return None | Some x \<Rightarrow> k' x)) d0 (c_db c) =
        (error_of r, if isl r then d0 else c_db c')"
  proof (cases "q (c_db c)")
    case None
    then show ?thesis using run c by (auto simp: attempt_or_def ret_def error_of_def calm_def)
  next
    case (Some x)
    then have "k x c = (r, c')" using run c by (simp add: attempt_or_def)
    then show ?thesis using assms [of x] c Some unfolding tracks_def by fastforce
  qed
qed

lemma tracks_select:
  assumes "\<And>x. tracks (k x) (k' x)" and "\<And>d x d'. f d = Inr (x, d') \<Longrightarrow> d' = d"
  shows "tracks (attempt (attempt (tx_stmt f) id scan_row) w k)
    (stmt {} f w (\<lambda>r. case r of None \<Rightarrow> Return (Some (w ErrNoRows)) | Some x \<Rightarrow> k' x))"
  unfolding tracks_def
proof (intro allI impI)
  fix c d0 r c'
  assume c: "calm c" and run: "attempt (attempt (tx_stmt f) id scan_row) w k c = (r, c')"
  show "c_outcomes c' = [] \<and> (isl r \<or> \<not> c_aborted c') \<and>
      run_script (stmt {} f w (\<lambda>r. case r of None \<Rightarrow> Return (Some (w ErrNoRows)) | Some x \<Rightarrow> k' x)) d0 (c_db c) =
        (error_of r, if isl r then d0 else c_db c')"
  proof (cases "f (c_db c)")
    case (Inl e)
    then show ?thesis using run c by (auto simp: attempt_def error_of_def calm_def)
  next
    case (Inr p)
    then obtain x where p: "p = (x, c_db c)" using assms(2) by (cases p) blast
    show ?thesis
    proof (cases x)
      case None
      then show ?thesis using run c Inr p by (auto simp: attempt_def scan_row_def fail_def error_of_def calm_def)
    next
      case (Some y)
      then have "k y c = (r, c')" using run c Inr p by (simp add: attempt_def scan_row_def ret_def)
      then show ?thesis using assms(1) [of y] c Inr p Some unfolding tracks_def by fastforce
    qed
  qed
qed

lemma tracks_tx:
  assumes "tracks body s" and c: "calm c" and run: "with_tx w body c = (r, c')"
  shows "run_script s (c_db c) (c_db c) = (error_of r, c_db c')"
proof -
  obtain q c1 where b: "body c = (q, c1)" by (rule prod.exhaust)
  then have t: "c_outcomes c1 = [] \<and> (isl q \<or> \<not> c_aborted c1) \<and>
      run_script s (c_db c) (c_db c) = (error_of q, if isl q then c_db c else c_db c1)"
    using assms(1) c unfolding tracks_def by blast
  then show ?thesis
    using run c b by (cases q) (auto simp: with_tx_def commit_def next_outcome_def error_of_def calm_def)
qed

lemma select_verification_reads: "select_verification uuid_in i d = Inr (x, d') \<Longrightarrow> d' = d"
  by (auto simp: select_verification_def split: option.splits)

lemmas tracks_rules = tracks_stmt tracks_row tracks_row_or tracks_select tracks_ret tracks_fail tracks_if
  select_verification_reads

lemma LogEvent_script:
  assumes "calm c" and "LogEvent now eid did ty change c = (r, c')"
  shows "run_script (log_event_script now eid did ty change) (c_db c) (c_db c) = (error_of r, c_db c')"
  by (rule tracks_tx [OF _ assms [unfolded LogEvent_def clamp_score_steps]])
     (unfold log_event_script_def, intro tracks_rules)

lemma Save_script:
  assumes "calm c" and run: "Save uuid_in t now aid a c = (r, c')"
  shows "run_script (save_script uuid_in t now aid a) (c_db c) (c_db c) = (error_of r, c_db c')"
proof (cases "at_MemoryID a = [] \<or> at_AgentDID a = [] \<or> at_Signature a = []")
  case True
  then show ?thesis using run by (auto simp: Save_def save_script_def fail_def error_of_def split: if_splits)
next
  case False
  then have given: "at_MemoryID a \<noteq> []" "at_AgentDID a \<noteq> []" "at_Signature a \<noteq> []" by simp_all
  show ?thesis
    unfolding save_script_def
    apply (simp only: given if_False length_0_conv)
  proof (rule tracks_tx [OF _ assms(1)])
    show "with_tx (Wrap ''failed to begin tx'')
      (attempt (tx_stmt (insert_attestation uuid_in aid (stamped t a))) (Wrap ''failed to insert attestation'') (\<lambda>i.
       attempt (tx_row (select_score (at_AgentDID a))) (Wrap ''failed to get agent score'') (\<lambda>cur.
       attempt (tx_stmt (set_reputation (min 1000 (add64 cur 25)) (Some now) (at_AgentDID a)))
         (Wrap ''failed to update agent reputation'') (\<lambda>_. ret ((stamped t a)\<lparr>at_ID := i\<rparr>))))) c = (r, c')"
      using run given unfolding Save_def cap_steps stamped_def [symmetric] by (simp add: Let_def)
  qed (intro tracks_rules)
qed

lemma Submit_script:
  assumes "calm c" and "SubmitVerificationResult uuid_in now eid i success c = (r, c')"
  shows "run_script (submit_script uuid_in now eid i success) (c_db c) (c_db c) = (error_of r, c_db c')"
  by (rule tracks_tx [OF _ assms [unfolded SubmitVerificationResult_def award_verifier_def penalise_target_def
        cap_steps floor_steps fetch_error_def [symmetric]]])
     (unfold submit_script_def award_script_def penalty_script_def, intro tracks_rules)

text \<open>The calls whose transactions may run at once, and their scripts.\<close>

datatype request =
    EventRequest time uuid string string int
  | SaveRequest time time uuid Attestation
  | SubmitRequest time uuid string bool

fun script_of :: "(string \<Rightarrow> uuid option) \<Rightarrow> request \<Rightarrow> script" where
  "script_of uuid_in (EventRequest now eid did ty change) = log_event_script now eid did ty change"
| "script_of uuid_in (SaveRequest t now aid a) = save_script uuid_in t now aid a"
| "script_of uuid_in (SubmitRequest now eid i success) = submit_script uuid_in now eid i success"

definition call :: "(string \<Rightarrow> uuid option) \<Rightarrow> request \<Rightarrow> (conn, unit) proc" where
  "call uuid_in q =
     (case q of
        EventRequest now eid did ty change \<Rightarrow> LogEvent now eid did ty change
      | SaveRequest t now aid a \<Rightarrow> attempt (Save uuid_in t now aid a) id (\<lambda>_. ret ())
      | SubmitRequest now eid i success \<Rightarrow> SubmitVerificationResult uuid_in now eid i success)"

lemma call_script:
  assumes "calm c" and "call uuid_in q c = (r, c')"
  shows "run_script (script_of uuid_in q) (c_db c) (c_db c) = (error_of r, c_db c')"
proof (cases q)
  case (SaveRequest t now aid a)
  obtain x c1 where x: "Save uuid_in t now aid a c = (x, c1)" by (rule prod.exhaust)
  then have "error_of r = error_of x \<and> c_db c' = c_db c1"
    using assms(2) SaveRequest by (cases x) (auto simp: call_def attempt_def ret_def error_of_def)
  then show ?thesis using Save_script [OF assms(1) x] SaveRequest by simp
qed (use assms LogEvent_script Submit_script in \<open>auto simp: call_def\<close>)

end
