(* ===== verification/Trust_Interleaving.thy ===== *)
theory Trust_Interleaving
  imports Trust_Scripts
begin

text \<open>
  What happens when several of the transactions of \<open>Trust_Scripts\<close> run at once. The code opens them
  with the default options, so PostgreSQL runs them under READ COMMITTED: a statement sees what is
  committed and the changes of its own transaction, a change of a row waits until no other open
  transaction has changed the row, and the changes become visible to others with the commit.
\<close>

section \<open>Several transactions at once\<close>

text \<open>
  An open transaction carries the changes that it has made, oldest first, and the rows that it has
  locked; a finished one carries what its caller got. What is committed is the database.
\<close>

record session =
  sn_script :: script
  sn_writes :: "(db \<Rightarrow> db) list"
  sn_locks :: "row set"
  sn_result :: "error option option"

definition opened :: "script \<Rightarrow> session" where
  "opened s = \<lparr>sn_script = s, sn_writes = [], sn_locks = {}, sn_result = None\<rparr>"

definition seen :: "session \<Rightarrow> db \<Rightarrow> db" where
  "seen s d = fold id (sn_writes s) d"

definition finished :: "error option \<Rightarrow> session \<Rightarrow> session" where
  "finished r s = s\<lparr>sn_writes := [], sn_locks := {}, sn_result := Some r\<rparr>"

definition held_by_others :: "nat \<Rightarrow> session list \<Rightarrow> row set" where
  "held_by_others i ss = (\<Union>j \<in> {0..<length ss} - {i}. sn_locks (ss ! j))"

text \<open>
  A turn of the server: session \<open>i\<close> executes its next statement, or waits for a row, or ends; or the
  server ends it with an error, as it does with one of two that wait for each other.
\<close>

datatype turn = Turn nat | Kill nat error

fun take_turn :: "turn \<Rightarrow> session list \<times> db \<Rightarrow> session list \<times> db" where
  "take_turn (Turn i) (ss, d) =
     (if i < length ss \<and> sn_result (ss ! i) = None
      then let s = ss ! i in
        (case sn_script s of
           Return None \<Rightarrow> (ss[i := finished None s], seen s d)
         | Return (Some e) \<Rightarrow> (ss[i := finished (Some e) s], d)
         | Stmt e l k \<Rightarrow>
             let v = seen s d in
             if l v \<inter> held_by_others i ss \<noteq> {} then (ss, d)
             else (ss[i := s\<lparr>sn_script := k v, sn_writes := sn_writes s @ [e v], sn_locks := sn_locks s \<union> l v\<rparr>], d))
      else (ss, d))"
| "take_turn (Kill i e) (ss, d) =
     (if i < length ss \<and> sn_result (ss ! i) = None then (ss[i := finished (Some e) (ss ! i)], d) else (ss, d))"

definition interleave :: "script list \<Rightarrow> turn list \<Rightarrow> db \<Rightarrow> error option option list \<times> db" where
  "interleave scripts turns d =
     (let (ss, d') = fold take_turn turns (map opened scripts, d) in (map sn_result ss, d'))"

section \<open>One at a time\<close>

lemma seen_write [simp]: "seen (s\<lparr>sn_script := k, sn_writes := sn_writes s @ [w], sn_locks := l\<rparr>) d = w (seen s d)"
  by (simp add: seen_def)

lemma held_by_others_alone [simp]: "held_by_others 0 [s] = {}"
  by (simp add: held_by_others_def)

lemma alone_from:
  "sn_result s = None \<Longrightarrow> run_script (sn_script s) d (seen s d) = (r, d') \<Longrightarrow>
     \<exists>n s'. fold take_turn (replicate n (Turn 0)) ([s], d) = ([s'], d') \<and> sn_result s' = Some r"
proof (induction "sn_script s" arbitrary: s)
  case (Return x)
  then show ?case
    by (intro exI [of _ 1] exI [of _ "finished x s"])
       (cases x; auto simp: finished_def dest!: sym [of "Return x" for x])
next
  case (Stmt e l k)
  let ?v = "seen s d"
  let ?s = "s\<lparr>sn_script := k ?v, sn_writes := sn_writes s @ [e ?v], sn_locks := sn_locks s \<union> l ?v\<rparr>"
  have script: "sn_script s = Stmt e l k" using Stmt(2) by simp
  then have turn: "take_turn (Turn 0) ([s], d) = ([?s], d)" using Stmt(3) by (simp add: Let_def)
  have "\<exists>n s'. fold take_turn (replicate n (Turn 0)) ([?s], d) = ([s'], d') \<and> sn_result s' = Some r"
    by (rule Stmt(1) [of ?s]) (use Stmt(3,4) script in simp_all)
  then obtain n s' where "fold take_turn (replicate n (Turn 0)) ([?s], d) = ([s'], d')" "sn_result s' = Some r" by blast
  then show ?case using turn by (intro exI [of _ "Suc n"] exI [of _ s']) simp
qed

text \<open>
  C16: a call that runs alone is the code's call. On a connection on which every call is served,
  \<open>LogEvent\<close>, \<open>Save\<close> and \<open>SubmitVerificationResult\<close> do what the server makes of their scripts when
  it gives no other transaction a turn: some number of turns ends the script with the same error
  or success and the same tables.
\<close>

theorem call_alone:
  assumes "calm c" and "call uuid_in q c = (r, c')"
  shows "\<exists>n. interleave [script_of uuid_in q] (replicate n (Turn 0)) (c_db c) = ([Some (error_of r)], c_db c')"
proof -
  have "run_script (sn_script (opened (script_of uuid_in q))) (c_db c) (seen (opened (script_of uuid_in q)) (c_db c)) =
      (error_of r, c_db c')"
    using call_script [OF assms] by (simp add: opened_def seen_def)
  from alone_from [OF _ this] obtain n s'
    where "fold take_turn (replicate n (Turn 0)) ([opened (script_of uuid_in q)], c_db c) = ([s'], c_db c')"
      and "sn_result s' = Some (error_of r)"
    by (auto simp: opened_def)
  then have "interleave [script_of uuid_in q] (replicate n (Turn 0)) (c_db c) = ([Some (error_of r)], c_db c')"
    by (simp add: interleave_def)
  then show ?thesis by blast
qed

theorem call_alone_witness:
  "\<exists>n d'. interleave [script_of Some (EventRequest 9 ''e1'' ''did:a'' ''x'' 30)] (replicate n (Turn 0))
      (sample_agents [(''did:a'', 990)]) = ([Some None], d') \<and> score_of ''did:a'' d' = Some 1000"
proof -
  let ?c = "sample_conn (sample_agents [(''did:a'', 990)])" and ?q = "EventRequest 9 ''e1'' ''did:a'' ''x'' 30"
  obtain d' where spec: "log_event_spec 9 ''e1'' ''did:a'' ''x'' 30 (c_db ?c) = Some ((), d')"
    and d': "score_of ''did:a'' d' = Some 1000"
    by (simp add: log_event_spec_def sample_agents_def sample_agent_def empty_db_def int4_def score_of_def
        add64_exact int64_def clamp_score_def)
  have "call Some ?q ?c = (Inr (), ?c\<lparr>c_db := d'\<rparr>)"
    using LogEvent_calm [OF calm_sample spec] by (simp add: call_def)
  from call_alone [OF calm_sample this] d' show ?thesis by (auto simp: error_of_def)
qed

section \<open>What no interleaving breaks\<close>

text \<open>Every change of the script keeps \<open>J\<close>, whatever has been committed when it takes effect.\<close>

primrec keeps_script :: "(db \<Rightarrow> bool) \<Rightarrow> script \<Rightarrow> bool" where
  "keeps_script J (Return r) \<longleftrightarrow> True"
| "keeps_script J (Stmt e l k) \<longleftrightarrow>
     (\<forall>v. J v \<longrightarrow> (\<forall>d. J d \<longrightarrow> J (e v d))) \<and> (\<forall>v. J v \<longrightarrow> keeps_script J (k v))"

definition session_ok :: "(db \<Rightarrow> bool) \<Rightarrow> session \<Rightarrow> bool" where
  "session_ok J s \<longleftrightarrow> keeps_script J (sn_script s) \<and> (\<forall>w \<in> set (sn_writes s). \<forall>d. J d \<longrightarrow> J (w d))"

lemma fold_keeps: "\<forall>w \<in> set ws. \<forall>d. J d \<longrightarrow> J (w d) \<Longrightarrow> J d \<Longrightarrow> J (fold id ws d)"
  by (induction ws arbitrary: d) auto

lemma seen_keeps: "session_ok J s \<Longrightarrow> J d \<Longrightarrow> J (seen s d)"
  unfolding session_ok_def seen_def by (rule fold_keeps) auto

lemma take_turn_keeps:
  assumes "\<forall>s \<in> set ss. session_ok J s" and "J d" and "take_turn t (ss, d) = (ss', d')"
  shows "(\<forall>s \<in> set ss'. session_ok J s) \<and> J d'"
proof -
  have ok: "session_ok J (ss ! i)" if "i < length ss" for i using assms(1) that by simp
  have fin: "session_ok J (finished r s)" if "session_ok J s" for r s
    using that by (simp add: session_ok_def finished_def)
  have upd: "\<forall>s \<in> set (ss[i := s']). session_ok J s" if "session_ok J s'" for i s'
    using assms(1) that by (auto dest: set_update_subset_insert [THEN subsetD])
  show ?thesis
  proof (cases t)
    case (Kill i e)
    then show ?thesis using assms upd [OF fin [OF ok, of i], of i "Some e"]
      by (cases "i < length ss \<and> sn_result (ss ! i) = None") auto
  next
    case (Turn i)
    show ?thesis
    proof (cases "i < length ss \<and> sn_result (ss ! i) = None")
      case False
      then show ?thesis using Turn assms by auto
    next
      case True
      note s = ok [OF conjunct1 [OF True]] and v = seen_keeps [OF ok [OF conjunct1 [OF True]] assms(2)]
      show ?thesis
      proof (cases "sn_script (ss ! i)")
        case (Return r)
        then show ?thesis using True Turn assms(2,3) upd [OF fin [OF s], of i r] v by (cases r) (auto simp: Let_def)
      next
        case (Stmt e l k)
        have "session_ok J ((ss ! i)\<lparr>sn_script := k (seen (ss ! i) d),
            sn_writes := sn_writes (ss ! i) @ [e (seen (ss ! i) d)],
            sn_locks := sn_locks (ss ! i) \<union> l (seen (ss ! i) d)\<rparr>)"
          using s v Stmt by (auto simp: session_ok_def)
        from upd [OF this] show ?thesis using True Turn assms Stmt by (auto simp: Let_def split: if_splits)
      qed
    qed
  qed
qed

lemma turns_keep:
  "\<forall>s \<in> set ss. session_ok J s \<Longrightarrow> J d \<Longrightarrow> fold take_turn turns (ss, d) = (ss', d') \<Longrightarrow> J d'"
proof (induction turns arbitrary: ss d)
  case (Cons t turns)
  obtain ss1 d1 where "take_turn t (ss, d) = (ss1, d1)" by (rule prod.exhaust)
  then show ?case using Cons.IH Cons.prems(3) take_turn_keeps [OF Cons.prems(1,2)] by fastforce
qed simp

lemma interleave_keeps:
  assumes "\<forall>s \<in> set scripts. keeps_script J s" and "J d" and "interleave scripts turns d = (rs, d')"
  shows "J d'"
proof -
  obtain ss' where "fold take_turn turns (map opened scripts, d) = (ss', d')"
    using assms(3) by (auto simp: interleave_def Let_def split: prod.splits)
  then show ?thesis by (rule turns_keep [rotated 2]) (use assms in \<open>auto simp: session_ok_def opened_def\<close>)
qed

lemma keeps_stmt:
  assumes "\<And>d x d'. J d \<Longrightarrow> f d = Inr (x, d') \<Longrightarrow> J d'" and "\<And>d x d'. J d \<Longrightarrow> f d = Inr (x, d') \<Longrightarrow> keeps_script J (k x)"
  shows "keeps_script J (stmt rows f w k)"
  using assms by (auto simp: stmt_def applied_def split: sum.splits)

lemma keeps_query: "(\<And>d. J d \<Longrightarrow> keeps_script J (k (q d))) \<Longrightarrow> keeps_script J (query q k)"
  by (simp add: query_def)

text \<open>Where the tables may go from \<open>d0\<close>: the schema and the range of the scores hold, and the logs grow.\<close>

definition onward :: "db \<Rightarrow> db \<Rightarrow> bool" where
  "onward d0 d \<longleftrightarrow> db_ok d \<and> scores_ok d \<and>
     (\<exists>es. t_reputation_events d = t_reputation_events d0 @ es) \<and>
     (\<exists>as. t_attestations d = t_attestations d0 @ as) \<and>
     map ag_DID (t_agents d) = map ag_DID (t_agents d0)"

lemma onward_refl: "db_ok d \<Longrightarrow> scores_ok d \<Longrightarrow> onward d d"
  by (simp add: onward_def)

lemma onward_event: "onward d0 d \<Longrightarrow> insert_event e d = Inr (x, d') \<Longrightarrow> onward d0 d'"
  using insert_event_db_ok [of e d x d'] by (auto simp: onward_def insert_event_def scores_ok_def split: if_splits)

lemma onward_score:
  assumes "onward d0 d" and "set_reputation s la did d = Inr (n, d')" and "0 \<le> s" "s \<le> 1000"
  shows "onward d0 d'"
  using assms set_reputation_db_ok [OF assms(2)] set_reputation_frame [OF assms(2)] set_reputation_agents [OF assms(2)]
    set_reputation_scores [OF assms(2)]
  unfolding onward_def scores_ok_def by metis

lemma onward_read: "onward d0 d \<Longrightarrow> select_score did d = Some n \<Longrightarrow> 0 \<le> n \<and> n \<le> 1000"
  by (auto simp: onward_def select_score_def dest: scores_okD)

lemma onward_attestation:
  assumes "onward d0 d" and "insert_attestation uuid_in aid a d = Inr (x, d')"
  shows "onward d0 d'"
proof -
  obtain b where d': "d' = d\<lparr>t_attestations := t_attestations d @ [b]\<rparr>" and "at_ID b \<notin> at_ID ` set (t_attestations d)"
    and "has_agent (at_AgentDID b) d"
    using assms(2) by (auto simp: insert_attestation_def split: option.splits if_splits)
  then have "keys_ok d'" "refs_ok d'" "columns_ok d'" using assms(1) by (auto simp: onward_def db_ok_defs)
  then show ?thesis using assms(1) by (auto simp: onward_def db_ok_def d' scores_ok_def)
qed

lemma onward_status:
  assumes "onward d0 d" and "set_status uuid_in st i d = Inr (x, d')"
  shows "onward d0 d'"
proof -
  obtain u where d': "d' = d\<lparr>t_verifications :=
      set_where (\<lambda>v. vf_ID v = u) (\<lambda>v. v\<lparr>vf_Status := st\<rparr>) (t_verifications d)\<rparr>"
    using assms(2) by (auto simp: set_status_def split: option.splits)
  then have "keys_ok d'" "refs_ok d'" "columns_ok d'"
    using assms(1) by (auto simp: onward_def db_ok_def keys_ok_def refs_ok_def columns_ok_def map_key_set_where set_set_where)
  then show ?thesis using assms(1) by (auto simp: onward_def db_ok_def d' scores_ok_def)
qed

lemmas onward_rules = onward_event onward_score onward_attestation onward_status

lemma onward_query:
  assumes "\<And>n. 0 \<le> n \<Longrightarrow> n \<le> 1000 \<Longrightarrow> keeps_script (onward d0) (k n)" and "keeps_script (onward d0) z"
  shows "keeps_script (onward d0) (query (select_score did) (\<lambda>r. case r of None \<Rightarrow> z | Some n \<Rightarrow> k n))"
  by (rule keeps_query) (auto simp: assms split: option.splits dest: onward_read)

lemma log_event_onward: "keeps_script (onward d0) (log_event_script now eid did ty change)"
  unfolding log_event_script_def
  by (intro keeps_stmt onward_query)
     (auto intro: onward_event onward_score simp: clamp_score_range)

lemma save_onward: "keeps_script (onward d0) (save_script uuid_in t now aid a)"
  unfolding save_script_def
  by (simp, intro impI keeps_stmt onward_query)
     (auto intro: onward_attestation onward_score simp: add64_exact int64_def)

lemma award_onward: "keeps_script (onward d0) (award_script now did)"
  unfolding award_script_def
  by (intro keeps_stmt onward_query) (auto intro: onward_score simp: add64_exact int64_def)

lemma penalty_onward: "keeps_script (onward d0) (penalty_script now eid did)"
  unfolding penalty_script_def
  by (intro keeps_stmt onward_query) (auto intro: onward_score onward_event simp: sub64_exact int64_def)

lemma submit_onward: "keeps_script (onward d0) (submit_script uuid_in now eid i success)"
  unfolding submit_script_def
  by (intro keeps_stmt)
     (auto split: option.splits intro!: keeps_stmt award_onward penalty_onward intro: onward_status
       dest: select_verification_reads)

lemma script_of_onward: "keeps_script (onward d0) (script_of uuid_in r)"
  by (cases r) (simp_all add: log_event_onward save_onward submit_onward)

text \<open>
  C4: the tables stay sound under concurrency. Whatever requests of the three kinds run at once,
  however the server interleaves their statements, makes them wait for locked rows, or ends some
  with an error: if the schema and the range 0..1000 of the scores held at the start, they hold
  in every database that is ever committed, no agent appears or disappears, and the logs of
  events and attestations have only grown.
\<close>

theorem interleaved_sound:
  assumes "db_ok d" and "scores_ok d" and "interleave (map (script_of uuid_in) requests) turns d = (rs, d')"
  shows "db_ok d' \<and> scores_ok d' \<and> map ag_DID (t_agents d') = map ag_DID (t_agents d) \<and>
    (\<exists>es. t_reputation_events d' = t_reputation_events d @ es) \<and>
    (\<exists>as. t_attestations d' = t_attestations d @ as)"
proof -
  have "onward d d'"
    using assms(3) by (rule interleave_keeps [where J = "onward d", rotated 2])
      (simp_all add: script_of_onward onward_refl assms(1,2))
  then show ?thesis by (auto simp: onward_def)
qed

theorem interleaved_sound_witness:
  "\<exists>rs d'. interleave (map (script_of Some) [EventRequest 8 ''e1'' ''did:a'' ''x'' 700, EventRequest 9 ''e2'' ''did:a'' ''y'' (- 900),
       SaveRequest 1 9 ''x1'' sample_attestation])
      [Turn 0, Turn 0, Turn 1, Turn 2, Turn 1, Turn 0, Turn 2, Turn 1, Turn 0, Kill 2 (Driver ''deadlock detected''), Turn 1, Turn 1]
      (sample_agents [(''did:a'', 500)]) = (rs, d') \<and> db_ok d' \<and> scores_ok d'"
proof -
  let ?q = "[EventRequest 8 ''e1'' ''did:a'' ''x'' 700, EventRequest 9 ''e2'' ''did:a'' ''y'' (- 900),
       SaveRequest 1 9 ''x1'' sample_attestation]"
  let ?t = "[Turn 0, Turn 0, Turn 1, Turn 2, Turn 1, Turn 0, Turn 2, Turn 1, Turn 0, Kill 2 (Driver ''deadlock detected''), Turn 1, Turn 1]"
  let ?d = "sample_agents [(''did:a'', 500)]"
  obtain rs d' where run: "interleave (map (script_of Some) ?q) ?t ?d = (rs, d')" by (rule prod.exhaust)
  have "db_ok ?d" "scores_ok ?d"
    by (simp_all add: db_ok_defs scores_ok_def sample_agents_def sample_agent_def empty_db_def int4_def)
  from interleaved_sound [OF this run] run show ?thesis by blast
qed

section \<open>All or nothing\<close>

text \<open>
  What the whole of a script does when it is committed, as a property \<open>P\<close> of the change \<open>W\<close> that its
  statements make together; they have seen databases with \<open>J\<close>.
\<close>

primrec ends_with :: "(db \<Rightarrow> bool) \<Rightarrow> ((db \<Rightarrow> db) \<Rightarrow> bool) \<Rightarrow> script \<Rightarrow> (db \<Rightarrow> db) \<Rightarrow> bool" where
  "ends_with J P (Return r) W \<longleftrightarrow> (r = None \<longrightarrow> P W)"
| "ends_with J P (Stmt e l k) W \<longleftrightarrow> (\<forall>v. J v \<longrightarrow> ends_with J P (k v) (\<lambda>d. e v (W d)))"

lemma ends_stmt:
  "(\<And>v x d'. J v \<Longrightarrow> f v = Inr (x, d') \<Longrightarrow> ends_with J P (k x) (\<lambda>d. applied f (W d))) \<Longrightarrow>
     ends_with J P (stmt rows f w k) W"
  by (auto simp: stmt_def split: sum.splits)

lemma ends_query: "(\<And>v. J v \<Longrightarrow> ends_with J P (k (q v)) W) \<Longrightarrow> ends_with J P (query q k) W"
  by (simp add: query_def)

lemma ends_select:
  "ends_with J P z W \<Longrightarrow> (\<And>n. ends_with J P (k n) W) \<Longrightarrow>
     ends_with J P (query q (\<lambda>r. case r of None \<Rightarrow> z | Some n \<Rightarrow> k n)) W"
  by (rule ends_query) (simp split: option.splits)

definition logged_as :: "uuid \<Rightarrow> db \<Rightarrow> ReputationEvent list" where
  "logged_as eid d = filter (\<lambda>e. re_ID e = eid) (t_reputation_events d)"

lemma logged_as_frame [simp]:
  "logged_as eid (applied (set_reputation s la did) d) = logged_as eid d"
  "logged_as eid (applied (insert_attestation uuid_in aid a) d) = logged_as eid d"
  "logged_as eid (applied (set_status uuid_in st i) d) = logged_as eid d"
  "logged_as eid (applied (select_verification uuid_in i) d) = logged_as eid d"
  "re_ID e \<noteq> eid \<Longrightarrow> logged_as eid (applied (insert_event e) d) = logged_as eid d"
  by (auto simp: logged_as_def applied_def set_reputation_def insert_attestation_def set_status_def
      select_verification_def insert_event_def split: option.splits)

lemma logged_as_insert:
  assumes "int4 (re_ScoreChange e)" and "has_agent (re_AgentDID e) d" and "logged_as (re_ID e) d = []"
  shows "logged_as (re_ID e) (applied (insert_event e) d) = [e]"
  using assms by (auto simp: logged_as_def applied_def insert_event_def filter_empty_conv)

fun event_ids :: "request \<Rightarrow> uuid set" where
  "event_ids (EventRequest now eid did ty change) = {eid}"
| "event_ids (SaveRequest t now aid a) = {}"
| "event_ids (SubmitRequest now eid i success) = {eid}"

lemma event_row_id [simp]: "re_ID (event_row now eid did ty change) = eid"
  by (simp add: event_row_def)

lemma other_scripts_frame:
  assumes "eid \<notin> event_ids q"
  shows "ends_with J (\<lambda>W. \<forall>d. J d \<longrightarrow> logged_as eid (W d) = logged_as eid d) (script_of uuid_in q) (\<lambda>d. d)"
  using assms
  by (cases q)
     (auto simp: log_event_script_def save_script_def submit_script_def award_script_def penalty_script_def
       split: option.splits intro!: ends_stmt ends_select)

lemma event_script_logs:
  "ends_with (onward d0) (\<lambda>W. \<forall>d. onward d0 d \<longrightarrow> logged_as eid d = [] \<longrightarrow> logged_as eid (W d) = [event_row now eid did ty change])
     (script_of uuid_in (EventRequest now eid did ty change)) (\<lambda>d. d)"
proof -
  have "logged_as eid (applied (insert_event (event_row now eid did ty change)) d) = [event_row now eid did ty change]"
    if "onward d0 v" "insert_event (event_row now eid did ty change) v = Inr ((), d')" "onward d0 d" "logged_as eid d = []" for v d d'
  proof -
    have "int4 change" "has_agent did v" using that(2) by (auto simp: insert_event_def event_row_def split: if_splits)
    moreover have "map ag_DID (t_agents v) = map ag_DID (t_agents d)" using that(1,3) by (simp add: onward_def)
    ultimately have "has_agent did d" by (metis has_agent_cong list.set_map)
    then show ?thesis
      using logged_as_insert [of "event_row now eid did ty change" d] \<open>int4 change\<close> that(4) by (simp add: event_row_def)
  qed
  then show ?thesis by (auto simp: log_event_script_def intro!: ends_stmt ends_select)
qed

definition tracked :: "(db \<Rightarrow> bool) \<Rightarrow> (nat \<Rightarrow> (db \<Rightarrow> db) \<Rightarrow> bool) \<Rightarrow> session list \<Rightarrow> bool" where
  "tracked J P ss \<longleftrightarrow>
     (\<forall>j < length ss. sn_result (ss ! j) = None \<longrightarrow> ends_with J (P j) (sn_script (ss ! j)) (seen (ss ! j)))"

definition committed :: "session list \<Rightarrow> nat set" where
  "committed ss = {j. j < length ss \<and> sn_result (ss ! j) = Some None}"

lemma tracked_update:
  assumes "tracked J P ss" and "sn_result s = None \<Longrightarrow> ends_with J (P i) (sn_script s) (seen s)"
  shows "tracked J P (ss[i := s])"
  using assms by (cases "i < length ss") (auto simp: tracked_def nth_list_update list_update_beyond)

text \<open>A turn commits one transaction, as a whole, or none.\<close>

lemma take_turn_commits:
  assumes ok: "\<forall>s \<in> set ss. session_ok J s" and J: "J d" and tr: "tracked J P ss"
    and turn: "take_turn t (ss, d) = (ss', d')"
  shows "tracked J P ss' \<and> length ss' = length ss \<and>
    ((committed ss' = committed ss \<and> d' = d) \<or>
     (\<exists>j W. j < length ss \<and> j \<notin> committed ss \<and> committed ss' = insert j (committed ss) \<and> P j W \<and> d' = W d))"
proof -
  have fin: "tracked J P (ss[i := finished r (ss ! i)])" for i r
    by (rule tracked_update [OF tr]) (simp add: finished_def)
  have same: "committed (ss[i := s]) = committed ss" if "sn_result (ss ! i) \<noteq> Some None" "sn_result s \<noteq> Some None" for i s
    using that by (cases "i < length ss") (auto simp: committed_def nth_list_update list_update_beyond)
  have one: "committed (ss[i := finished None (ss ! i)]) = insert i (committed ss)" if "i < length ss" for i
    using that by (auto simp: committed_def nth_list_update finished_def)
  have failed: "sn_result (finished (Some e) s) \<noteq> Some None" for e s by (simp add: finished_def)
  show ?thesis
  proof (cases t)
    case (Kill i e)
    show ?thesis
    proof (cases "i < length ss \<and> sn_result (ss ! i) = None")
      case True
      then show ?thesis using turn Kill fin [of i "Some e"] same [OF _ failed, of i e] by auto
    qed (use turn Kill tr in auto)
  next
    case (Turn i)
    show ?thesis
    proof (cases "i < length ss \<and> sn_result (ss ! i) = None")
      case False
      then show ?thesis using turn Turn tr by auto
    next
      case True
      then have i: "i < length ss" "sn_result (ss ! i) = None" "i \<notin> committed ss" by (simp_all add: committed_def)
      have e: "ends_with J (P i) (sn_script (ss ! i)) (seen (ss ! i))" using tr i by (simp add: tracked_def)
      show ?thesis
      proof (cases "sn_script (ss ! i)")
        case (Return r)
        show ?thesis
        proof (cases r)
          case None
          then have "P i (seen (ss ! i))" using e Return by simp
          then show ?thesis using turn Turn i Return None fin [of i None] one [of i] by (auto simp: Let_def)
        next
          case (Some x)
          then show ?thesis
            using turn Turn i Return fin [of i "Some x"] same [OF _ failed, of i x] by (auto simp: Let_def)
        qed
      next
        case (Stmt f l k)
        let ?v = "seen (ss ! i) d"
        let ?s = "(ss ! i)\<lparr>sn_script := k ?v, sn_writes := sn_writes (ss ! i) @ [f ?v], sn_locks := sn_locks (ss ! i) \<union> l ?v\<rparr>"
        have "J ?v" by (rule seen_keeps [where J = J]) (use ok i J in simp_all)
        then have "ends_with J (P i) (sn_script ?s) (seen ?s)"
          using e Stmt by (simp add: seen_write [abs_def])
        then have "tracked J P (ss[i := ?s])" by (rule tracked_update [OF tr])
        moreover have "committed (ss[i := ?s]) = committed ss" by (rule same) (use i in simp_all)
        ultimately show ?thesis using turn Turn i Stmt tr by (auto simp: Let_def split: if_splits)
      qed
    qed
  qed
qed

text \<open>What holds of the set of the committed transactions and the database, at every moment.\<close>

lemma turns_commit:
  assumes "\<forall>s \<in> set ss. session_ok J s" and "J d" and "tracked J P ss" and "S (committed ss) d"
    and step: "\<And>C j W d. J d \<Longrightarrow> S C d \<Longrightarrow> j < length ss \<Longrightarrow> j \<notin> C \<Longrightarrow> P j W \<Longrightarrow> S (insert j C) (W d)"
    and "fold take_turn turns (ss, d) = (ss', d')"
  shows "S (committed ss') d' \<and> length ss' = length ss"
  using assms(1-4,6) step
proof (induction turns arbitrary: ss d)
  case (Cons t turns)
  obtain ss1 d1 where turn: "take_turn t (ss, d) = (ss1, d1)" by (rule prod.exhaust)
  note K = take_turn_keeps [OF Cons.prems(1,2) turn] and C = take_turn_commits [OF Cons.prems(1,2,3) turn]
  have "S (committed ss1) d1" using C Cons.prems(2,4,6) by auto
  then have "S (committed ss') d' \<and> length ss' = length ss1"
    using K C Cons.prems(5,6) turn by (intro Cons.IH) auto
  then show ?case using C by simp
qed simp



section \<open>What interleaving changes\<close>

lemma held_by_others_two [simp]: "held_by_others 0 [s, t] = sn_locks t" "held_by_others (Suc 0) [s, t] = sn_locks s"
proof -
  have "{0..<2} - {0} = {Suc 0}" "{0..<2} - {Suc 0} = {0::nat}" by auto
  then show "held_by_others 0 [s, t] = sn_locks t" "held_by_others (Suc 0) [s, t] = sn_locks s"
    by (simp_all add: held_by_others_def numeral_2_eq_2)
qed

lemmas run_turns = interleave_def opened_def finished_def seen_def applied_def stmt_def query_def Let_def
  numeral_eq_Suc log_event_script_def submit_script_def award_script_def select_verification_def set_status_def
  select_score_def set_reputation_def find_row_set_where_same int4_def score_of_def

text \<open>
  C12: one verification can pay twice. While a verification is pending, two positive results for it
  that run one after the other pay the verifier 50 points and the second is refused. When the
  second reads the status before the first commits (the \<open>SELECT\<close> takes no lock), it waits for
  the row and then goes on: both calls return success and the verifier has up to 100 points more.
\<close>

theorem double_award:
  assumes u: "uuid_in i = Some u" and v: "find_row vf_ID u (t_verifications d) = Some v" "vf_Status v = ''pending''"
    and g: "score_of (vf_VerifierDID v) d = Some n" and n: "0 \<le> n" "n \<le> 1000"
  shows "\<exists>turns d1 d2.
     interleave (map (script_of uuid_in) [SubmitRequest now1 e1 i True, SubmitRequest now2 e2 i True])
       (replicate 5 (Turn 0) @ replicate 2 (Turn 1)) d =
       ([Some None, Some (Some (Plain ''verification is already in status: completed''))], d1) \<and>
     score_of (vf_VerifierDID v) d1 = Some (min 1000 (n + 50)) \<and>
     interleave (map (script_of uuid_in) [SubmitRequest now1 e1 i True, SubmitRequest now2 e2 i True]) turns d =
       ([Some None, Some None], d2) \<and>
     score_of (vf_VerifierDID v) d2 = Some (min 1000 (n + 100))"
proof -
  obtain a where a: "find_agent (vf_VerifierDID v) d = Some a" "n = ag_ReputationScore a"
    using g by (auto simp: score_of_def)
  have add: "add64 k 50 = k + 50" if "0 \<le> k" "k \<le> 1000" for k using that by (simp add: add64_exact int64_def)
  have serial: "\<exists>d'. interleave (map (script_of uuid_in) [SubmitRequest now1 e1 i True, SubmitRequest now2 e2 i True])
       (replicate 5 (Turn 0) @ replicate 2 (Turn 1)) d =
       ([Some None, Some (Some (Plain ''verification is already in status: completed''))], d') \<and>
     score_of (vf_VerifierDID v) d' = Some (min 1000 (n + 50))"
    using u v a n by (auto simp: run_turns add)
  have race: "\<exists>d'. interleave (map (script_of uuid_in) [SubmitRequest now1 e1 i True, SubmitRequest now2 e2 i True])
       ([Turn 0, Turn 1] @ replicate 4 (Turn 0) @ replicate 4 (Turn 1)) d = ([Some None, Some None], d') \<and>
     score_of (vf_VerifierDID v) d' = Some (min 1000 (n + 100))"
    using u v a n by (auto simp: run_turns add min_def)
  from serial race show ?thesis by blast
qed

theorem double_award_witness:
  "\<exists>turns d2. interleave (map (script_of Some) [SubmitRequest 9 ''e1'' ''v1'' True, SubmitRequest 9 ''e2'' ''v1'' True])
      turns (sample_db_verification\<lparr>t_agents := [sample_agent ''did:t'' 60, sample_agent ''did:v'' 700]\<rparr>) =
      ([Some None, Some None], d2) \<and> score_of ''did:v'' d2 = Some 800"
proof -
  let ?d = "sample_db_verification\<lparr>t_agents := [sample_agent ''did:t'' 60, sample_agent ''did:v'' 700]\<rparr>"
  have "find_row vf_ID ''v1'' (t_verifications ?d) = Some sample_verification" "vf_Status sample_verification = ''pending''"
    "score_of (vf_VerifierDID sample_verification) ?d = Some 700" "vf_VerifierDID sample_verification = ''did:v''"
    by (simp_all add: sample_verification_defs score_of_def)
  from double_award [of Some "''v1''" "''v1''" ?d, OF refl this(1-3), of 9 "''e1''" 9 "''e2''"] this(4)
  show ?thesis by auto
qed

text \<open>
  C13: a change of a score can be lost. Two events of one agent that run one after the other move
  the score by both changes. When the second reads the score before the first commits, both calls
  return success and both events are in the log, but the score has moved by the second change
  only: the log and the score no longer agree.
\<close>

theorem lost_update:
  assumes g: "score_of did d = Some n" and n: "0 \<le> n" "n \<le> 1000"
    and e: "e1 \<noteq> e2" "e1 \<notin> re_ID ` set (t_reputation_events d)" "e2 \<notin> re_ID ` set (t_reputation_events d)"
    and x: "int4 x" "int4 y"
  shows "\<exists>turns d1 d2.
     interleave (map (script_of uuid_in) [EventRequest t1 e1 did ty1 x, EventRequest t2 e2 did ty2 y])
       (replicate 4 (Turn 0) @ replicate 4 (Turn 1)) d = ([Some None, Some None], d1) \<and>
     score_of did d1 = Some (clamp_score (clamp_score (n + x) + y)) \<and>
     interleave (map (script_of uuid_in) [EventRequest t1 e1 did ty1 x, EventRequest t2 e2 did ty2 y]) turns d =
       ([Some None, Some None], d2) \<and>
     t_reputation_events d2 = t_reputation_events d1 \<and>
     t_reputation_events d2 = t_reputation_events d @ [event_row t1 e1 did ty1 x, event_row t2 e2 did ty2 y] \<and>
     score_of did d2 = Some (clamp_score (n + y))"
proof -
  obtain a where a: "find_agent did d = Some a" "n = ag_ReputationScore a"
    using g by (auto simp: score_of_def)
  then have h: "has_agent did d" by (simp add: has_agent_find)
  have add: "add64 k x = k + x" "add64 k y = k + y" if "0 \<le> k" "k \<le> 1000" for k
    using that x by (simp_all add: add64_exact int64_def int4_def)
  have c: "0 \<le> clamp_score k" "clamp_score k \<le> 1000" "clamp_score k < 2147483648" "- 2147483648 \<le> clamp_score k" for k
    using clamp_score_range [of k] by simp_all
  have serial: "\<exists>d'. interleave (map (script_of uuid_in) [EventRequest t1 e1 did ty1 x, EventRequest t2 e2 did ty2 y])
       (replicate 4 (Turn 0) @ replicate 4 (Turn 1)) d = ([Some None, Some None], d') \<and>
     t_reputation_events d' = t_reputation_events d @ [event_row t1 e1 did ty1 x, event_row t2 e2 did ty2 y] \<and>
     score_of did d' = Some (clamp_score (clamp_score (n + x) + y))"
    using a n e x h by (simp add: run_turns insert_event_def event_row_def has_agent_find add c)
  have race: "\<exists>d'. interleave (map (script_of uuid_in) [EventRequest t1 e1 did ty1 x, EventRequest t2 e2 did ty2 y])
       ([Turn 0, Turn 0, Turn 1, Turn 1] @ replicate 2 (Turn 0) @ replicate 2 (Turn 1)) d = ([Some None, Some None], d') \<and>
     t_reputation_events d' = t_reputation_events d @ [event_row t1 e1 did ty1 x, event_row t2 e2 did ty2 y] \<and>
     score_of did d' = Some (clamp_score (n + y))"
    using a n e x h by (simp add: run_turns insert_event_def event_row_def has_agent_find add c)
  from serial race show ?thesis by (elim exE conjE) (intro exI conjI, assumption+, simp_all)
qed

theorem lost_update_witness:
  "\<exists>turns d2. interleave (map (script_of Some) [EventRequest 8 ''e1'' ''did:a'' ''x'' (- 100), EventRequest 9 ''e2'' ''did:a'' ''y'' 10])
      turns (sample_agents [(''did:a'', 500)]) = ([Some None, Some None], d2) \<and>
     length (t_reputation_events d2) = 2 \<and> score_of ''did:a'' d2 = Some 510"
proof -
  let ?d = "sample_agents [(''did:a'', 500)]"
  have "score_of ''did:a'' ?d = Some 500" "t_reputation_events ?d = []"
    by (simp_all add: sample_agents_def sample_agent_def empty_db_def score_of_def)
  from lost_update [OF this(1), of "''e1''" "''e2''" "- 100" 10 Some 8 "''x''" 9 "''y''"] this(2)
  show ?thesis
    by (auto simp: int4_def clamp_score_def) (metis One_nat_def Suc_1 length_Cons list.size(3))
qed

end
