(* ===== verification/Trust_Locks.thy ===== *)
theory Trust_Locks
  imports Trust_Interleaving
begin

text \<open>
  Why the transactions of \<open>Trust_Scripts\<close> never wait for each other in a circle: all of them lock a
  verification before an agent, at most one agent, and besides only the row of their own that they insert.
  So some transaction can always go on, and every call returns without the server having to end any.
\<close>

section \<open>The order of the locks\<close>

text \<open>Rows that several transactions change, with the order in which each transaction locks them.\<close>

fun lock_rank :: "row \<Rightarrow> nat option" where
  "lock_rank (VerificationRow i) = Some 0"
| "lock_rank (AgentRow did) = Some 1"
| "lock_rank _ = None"

fun private_rows :: "request \<Rightarrow> row set" where
  "private_rows (EventRequest now eid did ty change) = {EventRow eid}"
| "private_rows (SaveRequest t now aid a) = {AttestationRow aid}"
| "private_rows (SubmitRequest now eid i success) = {EventRow eid}"

text \<open>Every row that the script locks is its own, or of rank \<open>n\<close> at least and of a higher one than those before.\<close>

definition lockable :: "row set \<Rightarrow> nat \<Rightarrow> nat \<Rightarrow> row \<Rightarrow> bool" where
  "lockable own n m r \<longleftrightarrow> r \<in> own \<or> (\<exists>k. lock_rank r = Some k \<and> n \<le> k \<and> k < m)"

primrec ordered :: "row set \<Rightarrow> nat \<Rightarrow> script \<Rightarrow> bool" where
  "ordered own n (Return r) \<longleftrightarrow> True"
| "ordered own n (Stmt e l k) \<longleftrightarrow> (\<forall>v. \<exists>m \<ge> n. (\<forall>r \<in> l v. lockable own n m r) \<and> ordered own m (k v))"

lemma ordered_stmt:
  "n \<le> m \<Longrightarrow> \<forall>r \<in> rows. lockable own n m r \<Longrightarrow> (\<And>x. ordered own m (k x)) \<Longrightarrow> ordered own n (stmt rows f w k)"
  by (auto simp: stmt_def split: sum.splits)

lemma ordered_select:
  "ordered own n z \<Longrightarrow> (\<And>x. ordered own n (k x)) \<Longrightarrow>
     ordered own n (query q (\<lambda>r. case r of None \<Rightarrow> z | Some x \<Rightarrow> k x))"
  by (auto simp: query_def split: option.splits)

lemma ordered_own: "r \<in> own \<Longrightarrow> (\<And>x. ordered own n (k x)) \<Longrightarrow> ordered own n (stmt {r} f w k)"
  by (rule ordered_stmt [of _ n]) (auto simp: lockable_def)

lemma ordered_read: "(\<And>x. ordered own n (k x)) \<Longrightarrow> ordered own n (stmt {} f w k)"
  by (rule ordered_stmt [of _ n]) auto

lemma ordered_agent: "n \<le> Suc 0 \<Longrightarrow> (\<And>x. ordered own 2 (k x)) \<Longrightarrow> ordered own n (stmt {AgentRow did} f w k)"
  by (rule ordered_stmt [of _ 2]) (auto simp: lockable_def)

lemma ordered_verification: "(\<And>x. ordered own (Suc 0) (k x)) \<Longrightarrow> ordered own 0 (stmt {VerificationRow i} f w k)"
  by (rule ordered_stmt [of _ "Suc 0"]) (auto simp: lockable_def)

lemmas ordered_rules = ordered_own ordered_read ordered_agent ordered_verification ordered_select

lemma script_ordered: "ordered (private_rows q) 0 (script_of uuid_in q)"
  by (cases q)
     (auto simp: log_event_script_def save_script_def submit_script_def award_script_def penalty_script_def
       split: option.splits intro!: ordered_rules)

section \<open>Progress\<close>

definition locks_ok :: "row set \<Rightarrow> nat \<Rightarrow> session \<Rightarrow> bool" where
  "locks_ok own n s \<longleftrightarrow> ordered own n (sn_script s) \<and> (\<forall>r \<in> sn_locks s. lockable own 0 n r)"

lemma locks_ok_next:
  "locks_ok own n s \<Longrightarrow> sn_script s = Stmt e l k \<Longrightarrow> \<exists>m \<ge> n. (\<forall>r \<in> l v. lockable own n m r) \<and> ordered own m (k v)"
  by (simp add: locks_ok_def)

definition orderly :: "(nat \<Rightarrow> row set) \<Rightarrow> session list \<Rightarrow> bool" where
  "orderly own ss \<longleftrightarrow>
     (\<forall>j < length ss. if sn_result (ss ! j) = None then \<exists>n. locks_ok (own j) n (ss ! j) else sn_locks (ss ! j) = {})"

text \<open>Rows of one's own have no rank and are no one else's.\<close>

definition separate :: "(nat \<Rightarrow> row set) \<Rightarrow> nat \<Rightarrow> bool" where
  "separate own len \<longleftrightarrow>
     (\<forall>i < len. (\<forall>r \<in> own i. lock_rank r = None) \<and> (\<forall>j < len. i \<noteq> j \<longrightarrow> own i \<inter> own j = {}))"

definition runnable :: "session list \<Rightarrow> db \<Rightarrow> nat \<Rightarrow> bool" where
  "runnable ss d i \<longleftrightarrow> i < length ss \<and> sn_result (ss ! i) = None \<and>
     (\<forall>e l k. sn_script (ss ! i) = Stmt e l k \<longrightarrow> l (seen (ss ! i) d) \<inter> held_by_others i ss = {})"

lemma orderly_update:
  assumes "orderly own ss" and "sn_result s = None \<Longrightarrow> \<exists>n. locks_ok (own i) n s" and "sn_result s \<noteq> None \<Longrightarrow> sn_locks s = {}"
  shows "orderly own (ss[i := s])"
  using assms by (cases "i < length ss") (auto simp: orderly_def nth_list_update list_update_beyond)

lemma orderly_finished: "orderly own ss \<Longrightarrow> orderly own (ss[i := finished r (ss ! i)])"
  by (rule orderly_update) (simp_all add: finished_def)

lemma take_turn_orderly:
  assumes "orderly own ss" and "take_turn t (ss, d) = (ss', d')"
  shows "orderly own ss' \<and> length ss' = length ss"
proof (cases t)
  case (Kill i e)
  then show ?thesis using assms orderly_finished by (auto split: if_splits)
next
  case (Turn i)
  show ?thesis
  proof (cases "i < length ss \<and> sn_result (ss ! i) = None")
    case False
    then show ?thesis using assms Turn by auto
  next
    case True
    show ?thesis
    proof (cases "sn_script (ss ! i)")
      case (Return r)
      then show ?thesis using assms Turn True orderly_finished by (cases r) (auto simp: Let_def)
    next
      case (Stmt e l k)
      let ?v = "seen (ss ! i) d"
      let ?s = "(ss ! i)\<lparr>sn_script := k ?v, sn_writes := sn_writes (ss ! i) @ [e ?v], sn_locks := sn_locks (ss ! i) \<union> l ?v\<rparr>"
      have "\<exists>n. locks_ok (own i) n (ss ! i)" using assms(1) True by (simp add: orderly_def)
      then obtain n where n: "locks_ok (own i) n (ss ! i)" ..
      from locks_ok_next [OF n Stmt] obtain m where "n \<le> m" "\<forall>r \<in> l ?v. lockable (own i) n m r" "ordered (own i) m (k ?v)"
        by blast
      then have "locks_ok (own i) m ?s" using n by (auto simp: locks_ok_def lockable_def)
      then have "orderly own (ss[i := ?s])" using assms(1) True by (intro orderly_update) auto
      then show ?thesis using assms Turn True Stmt by (auto simp: Let_def split: if_splits)
    qed
  qed
qed

lemma progress:
  assumes ord: "orderly own ss" and sep: "separate own (length ss)" and "j < length ss" "sn_result (ss ! j) = None"
  shows "\<exists>i. runnable ss d i"
proof -
  define I where "I = {j. j < length ss \<and> sn_result (ss ! j) = None}"
  have "\<forall>j \<in> I. \<exists>n. locks_ok (own j) n (ss ! j)" using ord by (auto simp: orderly_def I_def)
  then obtain n where n: "\<And>j. j \<in> I \<Longrightarrow> locks_ok (own j) (n j) (ss ! j)" by metis
  have I: "finite I" "I \<noteq> {}" using assms(3,4) by (auto simp: I_def)
  then obtain i where i: "i \<in> I" "n i = Max (n ` I)" using Max_in [of "n ` I"] by fastforce
  then have top: "n j \<le> n i" if "j \<in> I" for j using that I by simp
  have "l (seen (ss ! i) d) \<inter> held_by_others i ss = {}" if script: "sn_script (ss ! i) = Stmt e l k" for e l k
  proof (rule ccontr)
    assume "l (seen (ss ! i) d) \<inter> held_by_others i ss \<noteq> {}"
    then obtain r where r: "r \<in> l (seen (ss ! i) d)" "r \<in> held_by_others i ss" by blast
    then obtain j where "j \<in> {0..<length ss} - {i}" and held: "r \<in> sn_locks (ss ! j)" unfolding held_by_others_def by blast
    then have j: "j < length ss" "j \<noteq> i" by simp_all
    have jI: "j \<in> I" using ord held j by (force simp: orderly_def I_def split: if_splits)
    obtain m where "lockable (own i) (n i) m r"
      using locks_ok_next [OF n [OF i(1)] script] r(1) by blast
    moreover have "lockable (own j) 0 (n j) r" using n [OF jI] held by (auto simp: locks_ok_def)
    ultimately have "n i < n j"
      using sep i(1) j by (fastforce simp: lockable_def separate_def I_def)
    then show False using top [OF jI] by simp
  qed
  then show ?thesis using i(1) unfolding runnable_def I_def by blast
qed

section \<open>Every call returns\<close>

text \<open>A script that ends within \<open>n\<close> turns, whatever it sees.\<close>

primrec ends_in :: "script \<Rightarrow> nat \<Rightarrow> bool" where
  "ends_in (Return r) n \<longleftrightarrow> 0 < n"
| "ends_in (Stmt e l k) n \<longleftrightarrow> (\<exists>m. n = Suc m \<and> (\<forall>v. ends_in (k v) m))"

lemma within_stmt: "(\<And>x. ends_in (k x) n) \<Longrightarrow> 0 < n \<Longrightarrow> ends_in (stmt rows f w k) (Suc n)"
  by (auto simp: stmt_def split: sum.splits)

lemma within_select:
  "ends_in z n \<Longrightarrow> (\<And>x. ends_in (k x) n) \<Longrightarrow> ends_in (query q (\<lambda>r. case r of None \<Rightarrow> z | Some x \<Rightarrow> k x)) (Suc n)"
  by (auto simp: query_def split: option.splits)

lemma script_within: "ends_in (script_of uuid_in q) 6"
  by (cases q)
     (auto simp: log_event_script_def save_script_def submit_script_def award_script_def penalty_script_def
       numeral_eq_Suc split: option.splits intro!: within_stmt within_select)

definition ends_within :: "nat list \<Rightarrow> session list \<Rightarrow> bool" where
  "ends_within ns ss \<longleftrightarrow> length ns = length ss \<and>
     (\<forall>j < length ss. sn_result (ss ! j) = None \<longrightarrow> ends_in (sn_script (ss ! j)) (ns ! j))"

lemma runnable_turn:
  assumes run: "runnable ss d i" and ns: "ends_within ns ss" and turn: "take_turn (Turn i) (ss, d) = (ss', d')"
  shows "\<exists>ns'. ends_within ns' ss' \<and> sum_list ns' < sum_list ns"
proof -
  have i: "i < length ss" "sn_result (ss ! i) = None" "i < length ns" and w: "ends_in (sn_script (ss ! i)) (ns ! i)"
    using run ns by (auto simp: runnable_def ends_within_def)
  have pos: "0 < ns ! i" using w by (cases "sn_script (ss ! i)") auto
  have less: "sum_list (ns[i := ns ! i - 1]) < sum_list ns"
    using pos i(3) elem_le_sum_list [of i ns] by (simp add: sum_list_update)
  have "ends_within (ns[i := ns ! i - 1]) ss'"
  proof (cases "sn_script (ss ! i)")
    case (Return r)
    then have "ss' = ss[i := finished r (ss ! i)]" using turn i by (cases r) (auto simp: Let_def)
    then show ?thesis using ns i by (auto simp: ends_within_def nth_list_update finished_def)
  next
    case (Stmt e l k)
    then have "l (seen (ss ! i) d) \<inter> held_by_others i ss = {}" using run by (simp add: runnable_def)
    moreover have "ends_in (k (seen (ss ! i) d)) (ns ! i - 1)" using w Stmt by auto
    ultimately show ?thesis
      using turn Stmt ns i by (auto simp: ends_within_def nth_list_update Let_def)
  qed
  then show ?thesis using less by blast
qed

lemma take_turn_within:
  assumes ns: "ends_within ns ss" and turn: "take_turn t (ss, d) = (ss', d')"
  shows "\<exists>ns'. ends_within ns' ss' \<and> sum_list ns' \<le> sum_list ns"
proof (cases t)
  case (Kill i e)
  then have "ends_within ns ss'"
    using ns turn by (auto simp: ends_within_def nth_list_update finished_def split: if_splits)
  then show ?thesis by blast
next
  case (Turn i)
  show ?thesis
  proof (cases "runnable ss d i")
    case True
    then show ?thesis using runnable_turn ns turn Turn by (meson less_imp_le)
  next
    case False
    then have "ss' = ss" using turn Turn by (auto simp: runnable_def Let_def split: if_splits)
    then show ?thesis using ns by blast
  qed
qed

lemma all_return:
  assumes "orderly own ss" and "separate own (length ss)" and "ends_within ns ss"
  shows "\<exists>is ss' d'. length is \<le> sum_list ns \<and> fold take_turn (map Turn is) (ss, d) = (ss', d') \<and>
    (\<forall>s \<in> set ss'. sn_result s \<noteq> None)"
  using assms
proof (induction "sum_list ns" arbitrary: ns ss d rule: less_induct)
  case less
  show ?case
  proof (cases "\<forall>s \<in> set ss. sn_result s \<noteq> None")
    case True
    then show ?thesis by (intro exI [of _ "[]"] exI [of _ ss] exI [of _ d]) simp
  next
    case False
    then obtain j where "j < length ss" "sn_result (ss ! j) = None" by (auto simp: in_set_conv_nth)
    from progress [OF less.prems(1,2) this, of d] obtain i where i: "runnable ss d i" ..
    obtain ss1 d1 where turn: "take_turn (Turn i) (ss, d) = (ss1, d1)" by (rule prod.exhaust)
    obtain ns' where ns': "ends_within ns' ss1" "sum_list ns' < sum_list ns"
      using runnable_turn [OF i less.prems(3) turn] by blast
    have o: "orderly own ss1" "length ss1 = length ss" using take_turn_orderly [OF less.prems(1) turn] by simp_all
    obtain "is" ss' d' where "length is \<le> sum_list ns'" "fold take_turn (map Turn is) (ss1, d1) = (ss', d')"
      and "\<forall>s \<in> set ss'. sn_result s \<noteq> None"
      using less.hyps [OF ns'(2) o(1) _ ns'(1), of d1] less.prems(2) o(2) by auto
    then show ?thesis using turn ns'(2) by (intro exI [of _ "i # is"] exI [of _ ss'] exI [of _ d']) simp
  qed
qed

lemma turns_orderly:
  "orderly own ss \<Longrightarrow> ends_within ns ss \<Longrightarrow> fold take_turn turns (ss, d) = (ss', d') \<Longrightarrow>
     orderly own ss' \<and> length ss' = length ss \<and> (\<exists>ns'. ends_within ns' ss' \<and> sum_list ns' \<le> sum_list ns)"
proof (induction turns arbitrary: ss d ns)
  case (Cons t turns)
  obtain ss1 d1 where turn: "take_turn t (ss, d) = (ss1, d1)" by (rule prod.exhaust)
  obtain ns1 where ns1: "ends_within ns1 ss1" "sum_list ns1 \<le> sum_list ns"
    using take_turn_within [OF Cons.prems(2) turn] by blast
  have o: "orderly own ss1" "length ss1 = length ss" using take_turn_orderly [OF Cons.prems(1) turn] by simp_all
  have "fold take_turn turns (ss1, d1) = (ss', d')" using Cons.prems(3) turn by simp
  from Cons.IH [OF o(1) ns1(1) this] show ?case using o(2) ns1(2) by fastforce
qed auto

text \<open>
  C15: no deadlock. Requests whose new rows have different identifiers (the server generates them)
  never wait for each other in a circle: whatever has happened so far, there is an order in which
  the server can go on so that every call returns, within six turns per call and without ending
  any of them.
\<close>

theorem calls_return:
  assumes "\<forall>i < length requests. \<forall>j < length requests. i \<noteq> j \<longrightarrow> private_rows (requests ! i) \<inter> private_rows (requests ! j) = {}"
  shows "\<exists>is. length is \<le> 6 * length requests \<and>
    None \<notin> set (fst (interleave (map (script_of uuid_in) requests) (turns @ map Turn is) d))"
proof -
  define own where "own = (\<lambda>j. private_rows (requests ! j))"
  define ss where "ss = map opened (map (script_of uuid_in) requests)"
  obtain ss1 d1 where fold: "fold take_turn turns (ss, d) = (ss1, d1)" by (rule prod.exhaust)
  have "\<exists>n. locks_ok (own j) n (ss ! j)" if "j < length requests" for j
    using that script_ordered by (intro exI [of _ 0]) (simp add: locks_ok_def ss_def own_def opened_def)
  then have o: "orderly own ss" by (simp add: orderly_def ss_def) (simp add: opened_def)
  have "lock_rank r = None" if "r \<in> private_rows q" for r q using that by (cases q) auto
  then have sep: "separate own (length requests)" using assms unfolding separate_def own_def by blast
  have "ends_within (replicate (length requests) 6) ss" using script_within by (simp add: ends_within_def ss_def opened_def)
  from turns_orderly [OF o this fold] obtain ns where ns: "orderly own ss1" "length ss1 = length requests"
    "ends_within ns ss1" "sum_list ns \<le> 6 * length requests"
    by (auto simp: ss_def sum_list_replicate)
  obtain "is" ss' d' where "is": "length is \<le> sum_list ns" "fold take_turn (map Turn is) (ss1, d1) = (ss', d')"
    and closed: "\<forall>s \<in> set ss'. sn_result s \<noteq> None"
    using all_return [OF ns(1) sep [folded ns(2)] ns(3), of d1] by blast
  have "interleave (map (script_of uuid_in) requests) (turns @ map Turn is) d = (map sn_result ss', d')"
    unfolding interleave_def ss_def [symmetric] using fold "is"(2) by simp
  then have "None \<notin> set (fst (interleave (map (script_of uuid_in) requests) (turns @ map Turn is) d))"
    using closed by fastforce
  then show ?thesis using "is"(1) ns(4) by (intro exI [of _ "is"]) simp
qed

theorem calls_return_witness:
  "\<exists>is. length is \<le> 18 \<and> None \<notin> set (fst (interleave (map (script_of Some)
      [SubmitRequest 9 ''e1'' ''v1'' True, SubmitRequest 9 ''e2'' ''v1'' False, EventRequest 9 ''e3'' ''did:v'' ''x'' 5])
      ([Turn 0, Turn 1, Turn 0, Turn 2, Turn 1] @ map Turn is) sample_db_verification))"
  using calls_return [of "[SubmitRequest 9 ''e1'' ''v1'' True, SubmitRequest 9 ''e2'' ''v1'' False,
      EventRequest 9 ''e3'' ''did:v'' ''x'' 5]" Some "[Turn 0, Turn 1, Turn 0, Turn 2, Turn 1]" sample_db_verification]
  by (simp add: less_Suc_eq numeral_eq_Suc)

end
