(* ===== verification/Gdpr_Interleaving.thy ===== *)
theory Gdpr_Interleaving
  imports Gdpr_Service Trust_Interleaving
begin

text \<open>
  The transaction of \<open>gdpr.Forget\<close> as a script (\<open>Trust_Scripts\<close>), and what a call that moves the score
  of the same agent can do to it when both run at once.
\<close>

definition forget_script :: "time \<Rightarrow> string \<Rightarrow> script" where
  "forget_script now did =
     Stmt (\<lambda>_. applied (delete_where now (memory_of did)))
       (\<lambda>v. MemoryRow ` m_ID ` set (filter (memory_of did) (t_memories v))) (\<lambda>_.
     Stmt (\<lambda>_. applied (delete_policies did))
       (\<lambda>v. PolicyRow ` p_ID ` set (policies_of did v)) (\<lambda>_.
     stmt {AgentRow did} (revoke_agent did) (Wrap ''revoke agent'') (\<lambda>_. Return None)))"

lemma tracks_infallible:
  assumes "\<And>d. \<exists>x d'. f d = Inr (x, d')" and "\<And>x. tracks (k x) k'"
  shows "tracks (attempt (tx_stmt f) w k) (Stmt (\<lambda>_. applied f) l (\<lambda>_. k'))"
  unfolding tracks_def
proof (intro allI impI)
  fix c d0 r c'
  assume c: "calm c" and run: "attempt (tx_stmt f) w k c = (r, c')"
  obtain x d' where f: "f (c_db c) = Inr (x, d')" using assms(1) by blast
  then have "k x (c\<lparr>c_db := d'\<rparr>) = (r, c')" using run c by (simp add: attempt_def)
  moreover have "calm (c\<lparr>c_db := d'\<rparr>)" using c by simp
  ultimately show "c_outcomes c' = [] \<and> (isl r \<or> \<not> c_aborted c') \<and>
      run_script (Stmt (\<lambda>_. applied f) l (\<lambda>_. k')) d0 (c_db c) = (error_of r, if isl r then d0 else c_db c')"
    using assms(2) [of x] f unfolding tracks_def by (fastforce simp: applied_def)
qed

lemma Forget_script:
  assumes "calm c" and "Forget now did c = (r, c')"
  shows "run_script (forget_script now did) (c_db c) (c_db c) = (error_of r, c_db c')"
  by (rule tracks_tx [OF _ assms [unfolded Forget_def]], unfold forget_script_def)
     (intro tracks_infallible tracks_rules; simp add: delete_where_def delete_policies_def)

text \<open>
  A revocation can be undone. When an event of an agent is logged before the agent is forgotten,
  its score ends at 0, and afterwards the score starts from 0. When the event's transaction has
  read the score before \<open>Forget\<close> commits, it writes back what it computed: both calls return
  success, the key of the agent is gone, but its score is what it would be had it not been forgotten.
\<close>

lemma revocation_undone:
  assumes a: "find_agent did d = Some a" and n: "0 \<le> ag_ReputationScore a" "ag_ReputationScore a \<le> 1000"
    and e: "eid \<notin> re_ID ` set (t_reputation_events d)" "int4 x"
  shows "\<exists>d1. interleave [log_event_script t eid did ty x, forget_script now did]
       (replicate 4 (Turn 0) @ replicate 4 (Turn 1)) d = ([Some None, Some None], d1) \<and> score_of did d1 = Some 0"
    and "\<exists>turns d2 b. interleave [log_event_script t eid did ty x, forget_script now did] turns d =
        ([Some None, Some None], d2) \<and>
      find_agent did d2 = Some b \<and> ag_PublicKey b = [] \<and> ag_ReputationScore b = clamp_score (ag_ReputationScore a + x)"
proof -
  have h: "has_agent did d" using a by (simp add: has_agent_find)
  have add: "add64 (ag_ReputationScore a) x = ag_ReputationScore a + x"
    using n e by (simp add: add64_exact int64_def int4_def)
  have c: "clamp_score k < 2147483648" "- 2147483648 \<le> clamp_score k" for k
    using clamp_score_range [of k] by simp_all
  note run = run_turns insert_event_def event_row_def has_agent_find add c forget_script_def delete_where_def
    delete_policies_def revoke_agent_def
  show "\<exists>d1. interleave [log_event_script t eid did ty x, forget_script now did]
       (replicate 4 (Turn 0) @ replicate 4 (Turn 1)) d = ([Some None, Some None], d1) \<and> score_of did d1 = Some 0"
    using a e h by (simp add: run image_iff)
  have "\<exists>d2 b. interleave [log_event_script t eid did ty x, forget_script now did]
        (replicate 2 (Turn 0) @ replicate 4 (Turn 1) @ replicate 2 (Turn 0)) d = ([Some None, Some None], d2) \<and>
      find_agent did d2 = Some b \<and> ag_PublicKey b = [] \<and> ag_ReputationScore b = clamp_score (ag_ReputationScore a + x)"
    using a e h by (simp add: run image_iff)
  then show "\<exists>turns d2 b. interleave [log_event_script t eid did ty x, forget_script now did] turns d =
        ([Some None, Some None], d2) \<and>
      find_agent did d2 = Some b \<and> ag_PublicKey b = [] \<and> ag_ReputationScore b = clamp_score (ag_ReputationScore a + x)"
    by blast
qed

end
