(* ===== verification/Spec2Isabelle.thy ===== *)
theory Spec2Isabelle
  imports Startup Trust_Locks Gdpr_Interleaving
begin

text \<open>
  Acumius, a memory, trust and policy service for agents (Go, under \<open>src/internal\<close>), as Isabelle
  definitions translated from its source, with the theorems that make it correct.

  The program. An HTTP service over a PostgreSQL database and a Valkey server. Agents are
  registered with a key (\<open>trust\<close>); their reputation moves by attestations, peer verifications
  and events; memories are stored in PostgreSQL or, for the type \<open>working\<close>, in Valkey, behind a
  router (\<open>memory\<close>); policies decide which requests pass a middleware (\<open>policy\<close>, \<open>api\<close>); audit
  events are written by goroutines (\<open>audit\<close>); an agent's data can be forgotten, exported and
  corrected (\<open>gdpr\<close>); one tool is offered over MCP (\<open>mcp\<close>).

  How it is modelled. A Go function that returns a value and an error is a \<open>proc\<close>: from a state to
  \<open>Inl\<close> an error or \<open>Inr\<close> a value, and the new state (\<open>Prelude\<close>). The state of the database is a
  record of tables (\<open>Database\<close>), and every SQL statement of the code is a function on it, with the
  keys and references of the migrations as SQLSTATE errors. Whether a call is carried out is not
  the program's: each call takes the next of an arbitrary list of outcomes (served, refused, reply
  lost), so that every error return can happen, in transactions too. Valkey is any client that
  keeps the contract of the locale \<open>kv_client\<close> (\<open>Valkey\<close>), of which \<open>reference_server\<close> is an
  instance. Clock readings, fresh identifiers and random orders are arguments.

  The theories, in the order of their dependence:
  \<^item> \<open>Prelude\<close>: errors, 64-bit integers, strings, procedures with triples, tables as lists.
    \<open>Durations\<close>, \<open>Float64\<close> (binary64 rounding, with the locale \<open>float_rounding\<close>), \<open>Base58\<close>
    (the codec with the locale \<open>base58_codec\<close>): what the source uses of its libraries.
  \<^item> \<open>Models\<close> (\<open>trust/models.go\<close>, \<open>memory/types.go\<close>, \<open>policy/types.go\<close>, \<open>audit/logger.go\<close>): the structs,
    which are also the rows. \<open>Database\<close>: tables, statements, transactions, \<open>atomic\<close> operations.
  \<^item> \<open>Trust_Identity\<close>, \<open>Trust_Registry\<close>, \<open>Trust_Reputation\<close>, \<open>Trust_Attestation\<close>, \<open>Trust_Verification\<close>,
    \<open>Trust_Adapter\<close>: the files of \<open>trust\<close>, one each. Each transaction refines one step on the tables
    whatever calls fail; the score formula in floating point equals the documented integer one.
    \<open>Trust_Scripts\<close>, \<open>Trust_Interleaving\<close>, \<open>Trust_Locks\<close>: the transactions that move a score, statement by
    statement, and several of them at once under READ COMMITTED with row locks. Alone, a script is
    the code's call; together they keep the schema, the range of the scores and the log of events,
    and never deadlock, but a change of a score can be lost and one verification can pay twice.
    \<open>Gdpr_Interleaving\<close>: forgetting an agent at the same time, which such a change can undo.
  \<^item> \<open>Memory_Port\<close> (\<open>memory/store.go\<close>, \<open>memory/trust_port.go\<close>): the interfaces, as records of operations and
    as the locales \<open>memory_store\<close> and \<open>trust_port\<close>. \<open>Memory_Postgres\<close>, \<open>Memory_Valkey\<close>, \<open>Memory_Search\<close>,
    \<open>Memory_Router\<close>: \<open>postgres_store.go\<close>, \<open>valkey_store.go\<close>, \<open>search.go\<close>, \<open>router.go\<close>. Both stores
    interpret \<open>memory_store\<close>; the router is verified over two stores (\<open>router_backends\<close>).
  \<^item> \<open>Policy_Port\<close>, \<open>Policy_Store\<close>, \<open>Valkey\<close>, \<open>Policy_Cache\<close>, \<open>Policy_Evaluator\<close>, \<open>Policy_Parser\<close>: the files of
    \<open>policy\<close>. The decision is characterised by the rules of the stored policies, with a cache that
    holds nothing stale.
  \<^item> \<open>Audit_Logger\<close> (\<open>audit/logger.go\<close>): goroutines as a step relation, with what is stored at most once
    and what is stored in the end. \<open>Gdpr_Service\<close> (\<open>gdpr/gdpr.go\<close>).
  \<^item> \<open>Storage\<close> (\<open>storage/*.go\<close>, \<open>config/config.go\<close>): the handles of the servers, their pings, the configuration.
  \<^item> \<open>Api_Middleware\<close>, \<open>Api_Handlers\<close>, \<open>Api_Routes\<close> (\<open>api/*.go\<close>, \<open>mcp/server.go\<close>): both wrappers, every handler,
    and the routes with \<open>ServeMux\<close>; a handler takes a request and a state to a response and a state.
    Which routes there are, and which handlers panic (\<open>aborted\<close>), goes by the handles that are there.
  \<^item> \<open>Service_History\<close>, \<open>Service\<close>: the whole service as a step relation of requests, audit goroutines and
    changes of Valkey, and what every run keeps. \<open>Startup\<close> (\<open>cmd/acumius/main.go\<close>): from the
    configuration to the exit code, and what a service without a PostgreSQL handle answers.

  Bounds and fuel. Go's \<open>int\<close> is 64 bits wide and wraps (\<open>add64\<close>, \<open>sub64\<close>, \<open>mul64\<close>); database integers have 32
  bits (\<open>int4\<close>). The only loop without a bound of its own is the one over the cursor of \<open>SCAN\<close> in
  \<open>ValkeyStore.Search\<close>: \<open>scan_loop\<close> has the number of replies as fuel, and running out of it stands for
  the cancelled context. \<open>SearchMemory_answers\<close> shows that it never runs out over a client whose
  scans advance (\<open>scanning_client\<close>), and that more fuel changes nothing.

  What is assumed of code outside the repository: the contract of Valkey, the injectivity of base58,
  what Ed25519 accepts, decoders of JSON, YAML, base64, UUID and RFC 3339 as arguments, the order of
  rows without \<open>ORDER BY\<close> and of Go maps as arguments, distances and text search as arguments, the
  isolation of PostgreSQL's default level with its row locks (\<open>take_turn\<close>), and that the MCP
  library changes the state only through the tool it is given (\<open>only_calls\<close>).

  Not modelled: the listener and the graceful shutdown of \<open>net/http\<close> (\<open>Startup\<close> has their outcome as an
  argument); the wrapping of the MCP server around its library; the redirects of \<open>ServeMux\<close> for
  unclean paths; the text of JSON documents and headers of responses; interleaving within a request,
  other than between the transactions of \<open>Trust_Scripts\<close> (for \<open>Service\<close>, requests are steps); the
  migrations beyond the constraints of the tables; the web interface and the examples.
\<close>

end
